theory Spec2Isabelle
  imports Complex_Main
begin

section \<open>The tips system of \<^verbatim>\<open>src/tips.js\<close>\<close>

text \<open>
  The source keeps four pieces of mutable state: the item stored under
  \<^verbatim>\<open>LOCAL_STORAGE_KEY\<close> in \<^verbatim>\<open>localStorage\<close>, the module variables
  \<^verbatim>\<open>localStorageCache\<close> and \<^verbatim>\<open>finishedScopes\<close>, and the fields of the A-Frame
  system (\<^verbatim>\<open>activeTips\<close>, the two lazily resolved handles). Every function of the
  source becomes a function from the state to an outcome and the state it leaves behind:
  a JavaScript exception is the outcome \<open>Inl e\<close>, and the state beside it is the state at
  the moment of the throw, since the caller's frame loop goes on after an uncaught
  exception.
\<close>

subsection \<open>Values of the environment\<close>

text \<open>
  What \<^verbatim>\<open>userinput.get(path)\<close> may return, as far as the validators look at it: they
  test truthiness, and \<^verbatim>\<open>locomotion\<close> compares the first two elements with zero.
  A number is a real or \<open>NaN\<close>; an array is \<open>Vec\<close>.
\<close>

datatype jsval = Undefined | Null | Bool bool | Number real | NaN | Vec "jsval list"

fun truthy :: "jsval \<Rightarrow> bool" where
  "truthy Undefined = False"
| "truthy Null = False"
| "truthy (Bool b) = b"
| "truthy (Number r) = (r \<noteq> 0)"
| "truthy NaN = False"
| "truthy (Vec xs) = True"

text \<open>\<^verbatim>\<open>v[i]\<close> on a truthy value: an element of an array, \<^verbatim>\<open>undefined\<close> otherwise.\<close>

fun js_index :: "jsval \<Rightarrow> nat \<Rightarrow> jsval" where
  "js_index (Vec xs) i = (if i < length xs then xs ! i else Undefined)"
| "js_index v i = Undefined"

text \<open>
  The names imported from \<^verbatim>\<open>./userinput/sets\<close> and \<^verbatim>\<open>./userinput/paths\<close> that the
  validators mention, taken as distinct identifiers.
\<close>

datatype input_set =
  cursorHoldingPen | cursorHoldingInteractable | cursorHoldingCamera
  | cursorHoveringOnInteractable

datatype path =
  touchCameraDelta | smartMouseCameraDelta | characterAcceleration
  | snapRotateLeft | snapRotateRight | modDelta | scaleGrabbedGrabbable
  | penNextColor | penPrevColor | scalePenTip

record userinput =
  activeSets :: "input_set set"
  get :: "path \<Rightarrow> jsval"

text \<open>\<^verbatim>\<open>store.state.activity\<close> of the application store.\<close>

record activity =
  hasRotated :: bool
  hasScaled :: bool
  hasRecentered :: bool
  hasPinned :: bool

text \<open>
  One frame of the environment: whether \<^verbatim>\<open>this.el.systems.userinput\<close> and the
  \<^verbatim>\<open>networked-counter\<close> component of \<^verbatim>\<open>#media-counter\<close> resolve, what the input system
  reports, the states of the scene element (\<^verbatim>\<open>scene.is(name)\<close>), the count of the media
  counter, and \<^verbatim>\<open>window.APP.store\<close>, which may be absent.
\<close>

record frame =
  userinput_registered :: bool
  mediaCounter_registered :: bool
  input :: userinput
  scene_is :: "string \<Rightarrow> bool"
  count :: nat
  store :: "activity option"

text \<open>\<^verbatim>\<open>AFRAME.utils.device.isMobile()\<close> and \<^verbatim>\<open>isMobileVR()\<close>, read once at load.\<close>

record device =
  isMobile :: bool
  isMobileVR :: bool

subsection \<open>Constants and the tip catalog\<close>

datatype verdict = INVALID | VALID | FINISH

datatype platform = desktop | mobile | standalone

fun platform_name :: "platform \<Rightarrow> string" where
  "platform_name desktop = ''desktop''"
| "platform_name mobile = ''mobile''"
| "platform_name standalone = ''standalone''"

record scope_tips =
  top_tips :: "string list"
  bottom_tips :: "string list"

fun TIPS :: "platform \<Rightarrow> scope_tips" where
  "TIPS desktop = \<lparr>
     top_tips = [''mirror_mode'', ''pen_mode'', ''video_share_mode'', ''mute_mode''],
     bottom_tips = [''look'', ''locomotion'', ''turning'', ''spawn_menu'', ''object_grab'',
       ''object_zoom'', ''object_scale'', ''freeze_gesture'', ''menu_hover'',
       ''object_recenter_button'', ''object_rotate_button'', ''object_scale_button'',
       ''object_pin'', ''invite'', ''pen_color'', ''pen_size''] \<rparr>"
| "TIPS mobile = \<lparr>
     top_tips = [''pen_mode'', ''video_share_mode'', ''freeze_mode'', ''mute_mode''],
     bottom_tips = [''look'', ''locomotion'', ''spawn_menu'', ''object_grab'',
       ''freeze_gesture'', ''object_recenter_button'', ''object_rotate_button'',
       ''object_scale_button'', ''object_pin'', ''invite''] \<rparr>"
| "TIPS standalone = \<lparr> top_tips = [], bottom_tips = [] \<rparr>"

definition LOCAL_CLOSE_TIPS :: "string list" where
  "LOCAL_CLOSE_TIPS = [''invite'', ''object_pin'']"

definition tipPlatform :: "device \<Rightarrow> platform" where
  "tipPlatform dev = (if isMobileVR dev then standalone
                      else if isMobile dev then mobile else desktop)"

definition platformTips :: "device \<Rightarrow> scope_tips" where
  "platformTips dev = TIPS (tipPlatform dev)"

text \<open>
  \<^verbatim>\<open>platformTips[scope]\<close>: the two own properties of the object; any other name gives
  \<^verbatim>\<open>undefined\<close>. Not modelled: a scope that names a member of \<^verbatim>\<open>Object.prototype\<close>
  (such as \<^verbatim>\<open>constructor\<close>), for which the code reads a function and its \<^verbatim>\<open>length\<close>.
  Every statement below about a scope is about \<^verbatim>\<open>top\<close> or \<^verbatim>\<open>bottom\<close>.
\<close>

definition scope_lookup :: "scope_tips \<Rightarrow> string \<Rightarrow> string list option" where
  "scope_lookup ts scope =
     (if scope = ''top'' then Some (top_tips ts)
      else if scope = ''bottom'' then Some (bottom_tips ts)
      else None)"

subsection \<open>The state\<close>

datatype js_error = TypeError | SyntaxError

text \<open>An entry of the finished-tips record: \<^verbatim>\<open>{ finished: true }\<close>.\<close>

record tip_entry =
  finished :: bool

text \<open>
  The item under \<^verbatim>\<open>LOCAL_STORAGE_KEY\<close>, up to \<^verbatim>\<open>JSON.parse\<close> and \<^verbatim>\<open>JSON.stringify\<close>:
  no item (\<^verbatim>\<open>getItem\<close> returns \<^verbatim>\<open>null\<close>), a text that is not JSON, the JSON text
  \<^verbatim>\<open>null\<close>, or a JSON object from tip names to entries. Other JSON values (numbers,
  strings, arrays, entries that are not objects) are not modelled.
\<close>

datatype stored_item = NoItem | NotJson | JsonNull | JsonObject "string \<rightharpoonup> tip_entry"

text \<open>
  \<^verbatim>\<open>JSON.parse(localStorage.getItem(LOCAL_STORAGE_KEY))\<close>; \<open>Inr None\<close> is the value
  \<^verbatim>\<open>null\<close>, which \<^verbatim>\<open>JSON.parse(null)\<close> returns too.
\<close>

fun JSON_parse :: "stored_item \<Rightarrow> js_error + (string \<rightharpoonup> tip_entry) option" where
  "JSON_parse NoItem = Inr None"
| "JSON_parse NotJson = Inl SyntaxError"
| "JSON_parse JsonNull = Inr None"
| "JSON_parse (JsonObject m) = Inr (Some m)"

text \<open>A value of \<^verbatim>\<open>activeTips[scope]\<close>: \<^verbatim>\<open>undefined\<close>, \<^verbatim>\<open>null\<close> or a qualified tip name.\<close>

datatype selection = Unset | NoTip | Tip string

record tips_state =
  item :: stored_item
  localStorageCache :: "(string \<rightharpoonup> tip_entry) option"
  finishedScopes :: "string \<Rightarrow> bool"
  activeTips :: "string \<Rightarrow> selection"
  userinput_handle :: bool
  mediaCounter_handle :: bool
  emitted :: "(string \<Rightarrow> selection) list"

text \<open>The state when the module has been loaded, over a given stored item.\<close>

definition module_load :: "stored_item \<Rightarrow> tips_state" where
  "module_load it = \<lparr> item = it, localStorageCache = None,
     finishedScopes = (\<lambda>scope. False), activeTips = (\<lambda>scope. Unset),
     userinput_handle = False, mediaCounter_handle = False, emitted = [] \<rparr>"

text \<open>The \<^verbatim>\<open>init\<close> of the system: an absent item becomes the empty record.\<close>

definition init :: "tips_state \<Rightarrow> tips_state" where
  "init s = s\<lparr> activeTips := (\<lambda>scope. Unset),
               item := (if item s = NoItem then JsonObject Map.empty else item s) \<rparr>"

definition system_start :: "stored_item \<Rightarrow> tips_state" where
  "system_start it = init (module_load it)"

subsection \<open>The persistence functions\<close>

text \<open>
  \<^verbatim>\<open>isTipFinished\<close>: the cache is loaded when it is \<^verbatim>\<open>null\<close>; reading a property of
  a cache that is still \<^verbatim>\<open>null\<close> throws a \<^verbatim>\<open>TypeError\<close>. For a name that is not an
  own key the lookup gives \<^verbatim>\<open>undefined\<close> or a member of \<^verbatim>\<open>Object.prototype\<close>, which
  has no property \<^verbatim>\<open>finished\<close>: the answer is \<^verbatim>\<open>false\<close> either way.
\<close>

definition isTipFinished :: "string \<Rightarrow> tips_state \<Rightarrow> (js_error + bool) \<times> tips_state" where
  "isTipFinished tip s =
     (case localStorageCache s of
        Some c \<Rightarrow>
          (Inr (case c tip of None \<Rightarrow> False | Some e \<Rightarrow> finished e), s)
      | None \<Rightarrow>
          (case JSON_parse (item s) of
             Inl e \<Rightarrow> (Inl e, s)
           | Inr None \<Rightarrow> (Inl TypeError, s)
           | Inr (Some c) \<Rightarrow>
               (Inr (case c tip of None \<Rightarrow> False | Some e \<Rightarrow> finished e),
                s\<lparr> localStorageCache := Some c \<rparr>)))"

text \<open>
  \<^verbatim>\<open>storeData[tip] = { finished: true }\<close> as \<^verbatim>\<open>JSON.stringify\<close> sees it afterwards.
  The assignment makes or overwrites an own property, with one exception: on an object
  without an own key \<^verbatim>\<open>__proto__\<close> the name \<^verbatim>\<open>__proto__\<close> is the accessor inherited
  from \<^verbatim>\<open>Object.prototype\<close>, the assignment replaces the prototype, and no own property
  appears, so the stored record is the one that was read. (A record parsed from a text
  with the key \<^verbatim>\<open>__proto__\<close> has it as an own property, which the assignment overwrites.)
\<close>

definition set_finished :: "(string \<rightharpoonup> tip_entry) \<Rightarrow> string \<Rightarrow> (string \<rightharpoonup> tip_entry)" where
  "set_finished storeData tip =
     (if tip = ''__proto__'' \<and> storeData tip = None then storeData
      else storeData(tip \<mapsto> \<lparr> finished = True \<rparr>))"

definition markTipFinished :: "string \<Rightarrow> tips_state \<Rightarrow> (js_error + unit) \<times> tips_state" where
  "markTipFinished tip s =
     (case JSON_parse (item s) of
        Inl e \<Rightarrow> (Inl e, s)
      | Inr None \<Rightarrow> (Inl TypeError, s)
      | Inr (Some storeData) \<Rightarrow>
          (Inr (), s\<lparr> item := JsonObject (set_finished storeData tip),
                      localStorageCache := None \<rparr>))"

text \<open>\<^verbatim>\<open>fullTip.split(".")\<close> and the element at index 1, if there is one.\<close>

fun split_dot :: "string \<Rightarrow> string list" where
  "split_dot [] = [[]]"
| "split_dot (c # cs) =
     (if c = CHR ''.'' then [] # split_dot cs
      else (case split_dot cs of
              [] \<Rightarrow> [[c]]
            | w # ws \<Rightarrow> (c # w) # ws))"

fun index1 :: "'a list \<Rightarrow> 'a option" where
  "index1 (x # y # ys) = Some y"
| "index1 xs = None"

text \<open>The loop of \<^verbatim>\<open>handleTipClose\<close>.\<close>

fun markAll :: "string list \<Rightarrow> tips_state \<Rightarrow> (js_error + unit) \<times> tips_state" where
  "markAll [] s = (Inr (), s)"
| "markAll (tip # tips) s =
     (case markTipFinished tip s of
        (Inl e, s') \<Rightarrow> (Inl e, s')
      | (Inr u, s') \<Rightarrow> markAll tips s')"

definition handleTipClose ::
  "device \<Rightarrow> string \<Rightarrow> string \<Rightarrow> tips_state \<Rightarrow> (js_error + unit) \<times> tips_state" where
  "handleTipClose dev fullTip scope s =
     (case (case index1 (split_dot fullTip) of
              Some tip \<Rightarrow> if tip \<in> set LOCAL_CLOSE_TIPS then Some [tip]
                          else scope_lookup (platformTips dev) scope
            | None \<Rightarrow> scope_lookup (platformTips dev) scope) of
        None \<Rightarrow> (Inl TypeError, s)
      | Some tips \<Rightarrow> markAll tips s)"

text \<open>
  \<^verbatim>\<open>resetTips\<close>: the record and the cache are cleared first; the two calls on
  \<^verbatim>\<open>window.APP.store\<close> throw when the store is absent, before \<^verbatim>\<open>finishedScopes\<close> is
  cleared. What the calls do to the store belongs to the environment.
\<close>

definition resetTips :: "frame \<Rightarrow> tips_state \<Rightarrow> (js_error + unit) \<times> tips_state" where
  "resetTips env s =
     (let s1 = s\<lparr> item := JsonObject Map.empty, localStorageCache := None \<rparr>
      in case store env of
           None \<Rightarrow> (Inl TypeError, s1)
         | Some a \<Rightarrow> (Inr (), s1\<lparr> finishedScopes := (\<lambda>scope. False) \<rparr>))"

subsection \<open>The validators\<close>

text \<open>
  A validator receives \<^verbatim>\<open>(userinput, scene, mediaCounter, store)\<close>, here the frame, and
  reads the module constant \<^verbatim>\<open>isMobile\<close>, here the device.
\<close>

type_synonym validator = "device \<Rightarrow> frame \<Rightarrow> verdict"

definition has :: "frame \<Rightarrow> input_set \<Rightarrow> bool" where
  "has env st = (st \<in> activeSets (input env))"

definition look :: validator where
  "look dev env =
     (if has env cursorHoldingPen then INVALID
      else let cameraDelta =
                 get (input env) (if isMobile dev then touchCameraDelta else smartMouseCameraDelta)
           in if truthy cameraDelta then FINISH else VALID)"

definition locomotion :: validator where
  "locomotion dev env =
     (if has env cursorHoldingPen then INVALID
      else let accel = get (input env) characterAcceleration
           in if truthy accel \<and> (js_index accel 0 \<noteq> Number 0 \<or> js_index accel 1 \<noteq> Number 0)
              then FINISH else VALID)"

definition turning :: validator where
  "turning dev env =
     (if has env cursorHoldingPen then INVALID
      else if truthy (get (input env) snapRotateLeft) \<or> truthy (get (input env) snapRotateRight)
      then FINISH
      else VALID)"

definition spawn_menu :: validator where
  "spawn_menu dev env =
     (if has env cursorHoldingPen then INVALID
      else if count env = 0 then VALID
      else FINISH)"

definition freeze_gesture :: validator where
  "freeze_gesture dev env =
     (if count env = 0 then INVALID
      else if has env cursorHoldingInteractable then INVALID
      else if has env cursorHoldingPen then INVALID
      else if scene_is env ''frozen'' \<and> has env cursorHoveringOnInteractable then FINISH
      else if scene_is env ''frozen'' then INVALID else VALID)"

definition menu_hover :: validator where
  "menu_hover dev env =
     (if count env = 0 then INVALID
      else if \<not> scene_is env ''frozen'' then INVALID
      else if has env cursorHoldingPen then INVALID
      else if scene_is env ''frozen'' \<and> has env cursorHoveringOnInteractable then FINISH
      else VALID)"

definition invite :: validator where
  "invite dev env =
     (if has env cursorHoldingPen then INVALID
      else if has env cursorHoldingCamera then INVALID
      else if has env cursorHoldingInteractable then INVALID
      else if scene_is env ''copresent'' then FINISH else VALID)"

definition object_grab :: validator where
  "object_grab dev env =
     (if scene_is env ''frozen'' then INVALID
      else if count env = 0 then INVALID
      else if has env cursorHoldingPen then INVALID
      else if has env cursorHoldingCamera then INVALID
      else if has env cursorHoldingInteractable then FINISH
      else VALID)"

definition object_rotate_button :: validator where
  "object_rotate_button dev env =
     (if \<not> scene_is env ''frozen'' then INVALID
      else if count env = 0 then INVALID
      else if (case store env of None \<Rightarrow> False | Some a \<Rightarrow> hasRotated a) then FINISH
      else VALID)"

definition object_scale_button :: validator where
  "object_scale_button dev env =
     (if \<not> scene_is env ''frozen'' then INVALID
      else if count env = 0 then INVALID
      else if (case store env of None \<Rightarrow> False | Some a \<Rightarrow> hasScaled a) then FINISH
      else VALID)"

definition object_recenter_button :: validator where
  "object_recenter_button dev env =
     (if \<not> scene_is env ''frozen'' then INVALID
      else if count env = 0 then INVALID
      else if (case store env of None \<Rightarrow> False | Some a \<Rightarrow> hasRecentered a) then FINISH
      else VALID)"

definition object_pin :: validator where
  "object_pin dev env =
     (if \<not> scene_is env ''frozen'' then INVALID
      else if count env = 0 then INVALID
      else if (case store env of None \<Rightarrow> False | Some a \<Rightarrow> hasPinned a) then FINISH
      else VALID)"

definition object_zoom :: validator where
  "object_zoom dev env =
     (if scene_is env ''frozen'' then INVALID
      else if has env cursorHoldingPen then INVALID
      else if has env cursorHoldingCamera then INVALID
      else if \<not> has env cursorHoldingInteractable then INVALID
      else if truthy (get (input env) modDelta) then FINISH
      else VALID)"

definition object_scale :: validator where
  "object_scale dev env =
     (if scene_is env ''frozen'' then INVALID
      else if has env cursorHoldingPen then INVALID
      else if has env cursorHoldingCamera then INVALID
      else if \<not> has env cursorHoldingInteractable then INVALID
      else if truthy (get (input env) scaleGrabbedGrabbable) then FINISH
      else VALID)"

definition pen_color :: validator where
  "pen_color dev env =
     (if \<not> has env cursorHoldingPen then INVALID
      else if truthy (get (input env) penNextColor) \<or> truthy (get (input env) penPrevColor)
      then FINISH
      else VALID)"

definition pen_size :: validator where
  "pen_size dev env =
     (if \<not> has env cursorHoldingPen then INVALID
      else if truthy (get (input env) scalePenTip) then FINISH
      else VALID)"

definition pen_mode :: validator where
  "pen_mode dev env = (if \<not> has env cursorHoldingPen then INVALID else VALID)"

definition freeze_mode :: validator where
  "freeze_mode dev env = (if scene_is env ''frozen'' then VALID else INVALID)"

definition video_share_mode :: validator where
  "video_share_mode dev env = (if scene_is env ''sharing_video'' then VALID else INVALID)"

definition mirror_mode :: validator where
  "mirror_mode dev env = (if scene_is env ''mirroring'' then VALID else INVALID)"

definition mute_mode :: validator where
  "mute_mode dev env = (if scene_is env ''muted'' then VALID else INVALID)"

text \<open>
  The table \<^verbatim>\<open>VALIDATORS\<close>; a name that is not a key gives \<^verbatim>\<open>undefined\<close>. (Names
  of members of \<^verbatim>\<open>Object.prototype\<close> are not modelled; no platform list has one.)
\<close>

definition VALIDATORS :: "string \<rightharpoonup> validator" where
  "VALIDATORS = map_of [
     (''look'', look),
     (''locomotion'', locomotion),
     (''turning'', turning),
     (''spawn_menu'', spawn_menu),
     (''freeze_gesture'', freeze_gesture),
     (''menu_hover'', menu_hover),
     (''invite'', invite),
     (''object_grab'', object_grab),
     (''object_rotate_button'', object_rotate_button),
     (''object_scale_button'', object_scale_button),
     (''object_recenter_button'', object_recenter_button),
     (''object_pin'', object_pin),
     (''object_zoom'', object_zoom),
     (''object_scale'', object_scale),
     (''pen_color'', pen_color),
     (''pen_size'', pen_size),
     (''pen_mode'', pen_mode),
     (''freeze_mode'', freeze_mode),
     (''video_share_mode'', video_share_mode),
     (''mirror_mode'', mirror_mode),
     (''mute_mode'', mute_mode)]"

subsection \<open>The scope evaluator and the tick\<close>

text \<open>
  The loop of \<^verbatim>\<open>_performStep\<close> from position \<open>i\<close> on, with \<^verbatim>\<open>finishCount\<close> as
  accumulator: it returns \<^verbatim>\<open>chosenTip\<close> and \<^verbatim>\<open>finishCount\<close> as they are when the
  loop is left. Calling a validator that is \<^verbatim>\<open>undefined\<close> throws a \<^verbatim>\<open>TypeError\<close>.
\<close>

fun scan ::
  "device \<Rightarrow> frame \<Rightarrow> string list \<Rightarrow> nat \<Rightarrow> tips_state
     \<Rightarrow> (js_error + selection \<times> nat) \<times> tips_state" where
  "scan dev env [] finishCount s = (Inr (NoTip, finishCount), s)"
| "scan dev env (tip # tips) finishCount s =
     (case isTipFinished tip s of
        (Inl e, s1) \<Rightarrow> (Inl e, s1)
      | (Inr True, s1) \<Rightarrow> scan dev env tips (Suc finishCount) s1
      | (Inr False, s1) \<Rightarrow>
          (case VALIDATORS tip of
             None \<Rightarrow> (Inl TypeError, s1)
           | Some validate \<Rightarrow>
               (case validate dev env of
                  FINISH \<Rightarrow>
                    (case markTipFinished tip s1 of
                       (Inl e, s2) \<Rightarrow> (Inl e, s2)
                     | (Inr u, s2) \<Rightarrow> scan dev env tips finishCount s2)
                | VALID \<Rightarrow>
                    (Inr (Tip (platform_name (tipPlatform dev) @ ''.'' @ tip), finishCount), s1)
                | INVALID \<Rightarrow> scan dev env tips finishCount s1)))"

definition performStep ::
  "device \<Rightarrow> frame \<Rightarrow> string list \<Rightarrow> string \<Rightarrow> tips_state
     \<Rightarrow> (js_error + unit) \<times> tips_state" where
  "performStep dev env tips scope s =
     (if finishedScopes s scope then (Inr (), s)
      else case scan dev env tips 0 s of
             (Inl e, s1) \<Rightarrow> (Inl e, s1)
           | (Inr (chosenTip, finishCount), s1) \<Rightarrow>
               (let s2 = s1\<lparr> activeTips := (activeTips s1)(scope := chosenTip) \<rparr>
                in (Inr (),
                    if finishCount = length tips
                    then s2\<lparr> finishedScopes := (finishedScopes s2)(scope := True) \<rparr>
                    else s2)))"

text \<open>
  \<^verbatim>\<open>tick\<close>: the two handles are resolved lazily and kept; the change event carries the
  \<^verbatim>\<open>activeTips\<close> of the moment.
\<close>

definition tick :: "device \<Rightarrow> frame \<Rightarrow> tips_state \<Rightarrow> (js_error + unit) \<times> tips_state" where
  "tick dev env s =
     (let s1 = (if userinput_handle s then s
                else s\<lparr> userinput_handle := userinput_registered env \<rparr>)
      in if \<not> userinput_handle s1 then (Inr (), s1)
         else
           let s2 = (if mediaCounter_handle s1 then s1
                     else s1\<lparr> mediaCounter_handle := mediaCounter_registered env \<rparr>)
           in if \<not> mediaCounter_handle s2 then (Inr (), s2)
              else
                let tips = platformTips dev;
                    prevTop = activeTips s2 ''top'';
                    prevBottom = activeTips s2 ''bottom''
                in case performStep dev env (top_tips tips) ''top'' s2 of
                     (Inl e, s3) \<Rightarrow> (Inl e, s3)
                   | (Inr u, s3) \<Rightarrow>
                       (case performStep dev env (bottom_tips tips) ''bottom'' s3 of
                          (Inl e, s4) \<Rightarrow> (Inl e, s4)
                        | (Inr u', s4) \<Rightarrow>
                            (Inr (),
                             if prevTop \<noteq> activeTips s4 ''top''
                                \<or> prevBottom \<noteq> activeTips s4 ''bottom''
                             then s4\<lparr> emitted := emitted s4 @ [activeTips s4] \<rparr>
                             else s4)))"

subsection \<open>Runs\<close>

text \<open>
  What the rest of the application can do with the system: let a frame pass, close a tip,
  mark a tip finished, reset. An exception of one call does not stop the frame loop, so a
  run goes on from the state the call left.
\<close>

datatype call =
  Tick frame
  | HandleTipClose string string
  | MarkTipFinished string
  | ResetTips frame

fun exec :: "device \<Rightarrow> call \<Rightarrow> tips_state \<Rightarrow> (js_error + unit) \<times> tips_state" where
  "exec dev (Tick env) s = tick dev env s"
| "exec dev (HandleTipClose fullTip scope) s = handleTipClose dev fullTip scope s"
| "exec dev (MarkTipFinished tip) s = markTipFinished tip s"
| "exec dev (ResetTips env) s = resetTips env s"

fun run :: "device \<Rightarrow> call list \<Rightarrow> tips_state \<Rightarrow> tips_state" where
  "run dev [] s = s"
| "run dev (c # cs) s = run dev cs (snd (exec dev c s))"

section \<open>Notions for the verification\<close>

subsection \<open>The finished-tips record\<close>

text \<open>
  \<open>finished_in m tip\<close> is what \<^verbatim>\<open>isTipFinished\<close> answers on the record \<open>m\<close>:
  \<^verbatim>\<open>!!(m[tip] && m[tip].finished)\<close>. \<open>loaded s m\<close> says that the stored item is the
  object \<open>m\<close> and that the cache, when it is not \<^verbatim>\<open>null\<close>, is that object.
\<close>

definition finished_in :: "(string \<rightharpoonup> tip_entry) \<Rightarrow> string \<Rightarrow> bool" where
  "finished_in m tip = (case m tip of None \<Rightarrow> False | Some e \<Rightarrow> finished e)"

definition loaded :: "tips_state \<Rightarrow> (string \<rightharpoonup> tip_entry) \<Rightarrow> bool" where
  "loaded s m = (item s = JsonObject m \<and>
     (localStorageCache s = None \<or> localStorageCache s = Some m))"

text \<open>
  The result of a tip's validator on a frame (\<open>INVALID\<close> stands in for a name without a
  validator; \<open>known\<close> excludes such names), and the template string
  \<^verbatim>\<open>`${tipPlatform()}.${tip}`\<close>.
\<close>

definition verdict_of :: "device \<Rightarrow> frame \<Rightarrow> string \<Rightarrow> verdict" where
  "verdict_of dev env tip =
     (case VALIDATORS tip of None \<Rightarrow> INVALID | Some validate \<Rightarrow> validate dev env)"

definition qualified_name :: "device \<Rightarrow> string \<Rightarrow> string" where
  "qualified_name dev tip = platform_name (tipPlatform dev) @ ''.'' @ tip"

definition known :: "string list \<Rightarrow> bool" where
  "known tips = (\<forall>tip \<in> set tips. VALIDATORS tip \<noteq> None)"

text \<open>
  The first tip of a list, in order, that is not finished in \<open>m\<close> and whose validator
  returns \<open>VALID\<close>; \<^verbatim>\<open>null\<close> when there is none.
\<close>

definition first_valid ::
  "device \<Rightarrow> frame \<Rightarrow> (string \<rightharpoonup> tip_entry) \<Rightarrow> string list \<Rightarrow> selection" where
  "first_valid dev env m tips =
     (case find (\<lambda>tip. \<not> finished_in m tip \<and> verdict_of dev env tip = VALID) tips of
        None \<Rightarrow> NoTip
      | Some tip \<Rightarrow> Tip (qualified_name dev tip))"

text \<open>
  The loop of \<^verbatim>\<open>_performStep\<close> on the record alone: the chosen tip, the count and the
  record it leaves. Lemma \<open>scan_loaded\<close> shows that \<open>scan\<close> computes it on a loaded state
  (a tip that has a validator is not \<^verbatim>\<open>__proto__\<close>, so marking it adds its entry).
\<close>

fun scan_abs :: "device \<Rightarrow> frame \<Rightarrow> string list \<Rightarrow> nat \<Rightarrow> (string \<rightharpoonup> tip_entry)
    \<Rightarrow> selection \<times> nat \<times> (string \<rightharpoonup> tip_entry)" where
  "scan_abs dev env [] n m = (NoTip, n, m)"
| "scan_abs dev env (tip # tips) n m =
     (if finished_in m tip then scan_abs dev env tips (Suc n) m
      else case verdict_of dev env tip of
             FINISH \<Rightarrow> scan_abs dev env tips n (m(tip \<mapsto> \<lparr> finished = True \<rparr>))
           | VALID \<Rightarrow> (Tip (qualified_name dev tip), n, m)
           | INVALID \<Rightarrow> scan_abs dev env tips n m)"

text \<open>The record after marking a list of tips, as \<^verbatim>\<open>handleTipClose\<close> does.\<close>

fun mark_rec :: "string list \<Rightarrow> (string \<rightharpoonup> tip_entry) \<Rightarrow> (string \<rightharpoonup> tip_entry)" where
  "mark_rec [] m = m"
| "mark_rec (tip # tips) m = mark_rec tips (set_finished m tip)"

text \<open>The list that \<^verbatim>\<open>handleTipClose\<close> walks: \<^verbatim>\<open>undefined\<close> for an unknown scope.\<close>

definition closed_tips :: "device \<Rightarrow> string \<Rightarrow> string \<Rightarrow> string list option" where
  "closed_tips dev fullTip scope =
     (case index1 (split_dot fullTip) of
        Some tip \<Rightarrow> if tip \<in> set LOCAL_CLOSE_TIPS then Some [tip]
                    else scope_lookup (platformTips dev) scope
      | None \<Rightarrow> scope_lookup (platformTips dev) scope)"

text \<open>The fields that the persistence functions never write.\<close>

definition same_rest :: "tips_state \<Rightarrow> tips_state \<Rightarrow> bool" where
  "same_rest s s' = (finishedScopes s' = finishedScopes s \<and> activeTips s' = activeTips s
     \<and> userinput_handle s' = userinput_handle s
     \<and> mediaCounter_handle s' = mediaCounter_handle s \<and> emitted s' = emitted s)"

subsection \<open>What every call keeps\<close>

text \<open>
  Three facts hold when the system starts, over any stored item, and after every call,
  whatever its outcome (\<open>wf_system_start\<close>, \<open>wf_exec\<close>, \<open>wf_run\<close>): the cache, when it
  is loaded, is the stored record (\<open>cache_ok\<close>); a scope whose flag is set holds the
  selection \<^verbatim>\<open>null\<close>; and a scope holds a tip only after a tick has evaluated, that is,
  with both handles resolved.
\<close>

definition cache_ok :: "tips_state \<Rightarrow> bool" where
  "cache_ok s = (case localStorageCache s of None \<Rightarrow> True | Some c \<Rightarrow> item s = JsonObject c)"

definition wf_state :: "tips_state \<Rightarrow> bool" where
  "wf_state s =
     (cache_ok s
      \<and> (\<forall>scope. finishedScopes s scope \<longrightarrow> activeTips s scope = NoTip)
      \<and> (\<forall>scope q. activeTips s scope = Tip q \<longrightarrow>
            userinput_handle s \<and> mediaCounter_handle s))"

subsection \<open>The two parts of a tick\<close>

text \<open>
  \<^verbatim>\<open>tick\<close> first resolves the two handles (\<open>resolve\<close>); when both are there
  (\<open>ready\<close>) it evaluates the two scopes and emits the change event (\<open>evaluate\<close>).
  Lemma \<open>tick_cases\<close> states \<open>tick\<close> in these terms.
\<close>

definition resolve :: "frame \<Rightarrow> tips_state \<Rightarrow> tips_state" where
  "resolve env s =
     (let s1 = (if userinput_handle s then s
                else s\<lparr> userinput_handle := userinput_registered env \<rparr>)
      in if \<not> userinput_handle s1 then s1
         else if mediaCounter_handle s1 then s1
         else s1\<lparr> mediaCounter_handle := mediaCounter_registered env \<rparr>)"

definition ready :: "tips_state \<Rightarrow> bool" where
  "ready s = (userinput_handle s \<and> mediaCounter_handle s)"

definition evaluate :: "device \<Rightarrow> frame \<Rightarrow> tips_state \<Rightarrow> (js_error + unit) \<times> tips_state" where
  "evaluate dev env s2 =
     (case performStep dev env (top_tips (platformTips dev)) ''top'' s2 of
        (Inl e, s3) \<Rightarrow> (Inl e, s3)
      | (Inr u, s3) \<Rightarrow>
          (case performStep dev env (bottom_tips (platformTips dev)) ''bottom'' s3 of
             (Inl e, s4) \<Rightarrow> (Inl e, s4)
           | (Inr u', s4) \<Rightarrow>
               (Inr (),
                if activeTips s2 ''top'' \<noteq> activeTips s4 ''top''
                   \<or> activeTips s2 ''bottom'' \<noteq> activeTips s4 ''bottom''
                then s4\<lparr> emitted := emitted s4 @ [activeTips s4] \<rparr>
                else s4)))"

subsection \<open>Flagged scopes whose tips are all finished\<close>

text \<open>
  A scope's flag in \<^verbatim>\<open>finishedScopes\<close> is only ever set by a scan that found every tip
  of the scope finished and chose nothing. \<open>sys_inv\<close> states that a flagged scope has all
  its tips finished in the stored record. It holds when the system starts over an absent
  or well-formed record (\<open>inv_system_start\<close>) and is kept by every call except a reset
  that does not find the store (\<open>exec_inv\<close>, \<open>run_inv_resets\<close>): such a reset clears the
  record and throws before it clears the flags (\<open>failed_reset_keeps_flags\<close>), and
  \<open>sys_inv\<close> is false afterwards. No claim below assumes \<open>sys_inv\<close>; it serves the
  comparison of the two evaluations over runs whose resets complete.
\<close>

definition exhausted_ok ::
  "tips_state \<Rightarrow> (string \<rightharpoonup> tip_entry) \<Rightarrow> string \<Rightarrow> string list \<Rightarrow> bool" where
  "exhausted_ok s m scope tips =
     (finishedScopes s scope \<longrightarrow>
        activeTips s scope = NoTip \<and> (\<forall>tip \<in> set tips. finished_in m tip))"

definition sys_inv :: "device \<Rightarrow> tips_state \<Rightarrow> bool" where
  "sys_inv dev s =
     (case item s of
        JsonObject m \<Rightarrow>
          (localStorageCache s = None \<or> localStorageCache s = Some m)
          \<and> exhausted_ok s m ''top'' (top_tips (platformTips dev))
          \<and> exhausted_ok s m ''bottom'' (bottom_tips (platformTips dev))
      | _ \<Rightarrow> False)"

text \<open>
  On a state that satisfies \<open>sys_inv\<close>, the evaluation of a tick is a function of the
  record: \<open>top_record\<close> and \<open>eval_record\<close> are the record after the scan of the top
  and of both lists, \<open>eval_active\<close> the new selections, \<open>eval_emitted\<close> the events.
  \<open>grows m m'\<close> says that every tip finished in \<open>m\<close> is finished in \<open>m'\<close>.
\<close>

definition grows :: "(string \<rightharpoonup> tip_entry) \<Rightarrow> (string \<rightharpoonup> tip_entry) \<Rightarrow> bool" where
  "grows m m' = (\<forall>x. finished_in m x \<longrightarrow> finished_in m' x)"

definition top_record :: "device \<Rightarrow> frame \<Rightarrow> (string \<rightharpoonup> tip_entry) \<Rightarrow> (string \<rightharpoonup> tip_entry)" where
  "top_record dev env m = snd (snd (scan_abs dev env (top_tips (platformTips dev)) 0 m))"

definition eval_record :: "device \<Rightarrow> frame \<Rightarrow> (string \<rightharpoonup> tip_entry) \<Rightarrow> (string \<rightharpoonup> tip_entry)" where
  "eval_record dev env m =
     snd (snd (scan_abs dev env (bottom_tips (platformTips dev)) 0 (top_record dev env m)))"

definition eval_active ::
  "device \<Rightarrow> frame \<Rightarrow> (string \<rightharpoonup> tip_entry) \<Rightarrow> (string \<Rightarrow> selection) \<Rightarrow> string \<Rightarrow> selection" where
  "eval_active dev env m act =
     act(''top'' := first_valid dev env m (top_tips (platformTips dev)),
         ''bottom'' := first_valid dev env (top_record dev env m) (bottom_tips (platformTips dev)))"

definition eval_emitted ::
  "(string \<Rightarrow> selection) \<Rightarrow> (string \<Rightarrow> selection) \<Rightarrow> (string \<Rightarrow> selection) list
     \<Rightarrow> (string \<Rightarrow> selection) list" where
  "eval_emitted prev act es =
     (if prev ''top'' \<noteq> act ''top'' \<or> prev ''bottom'' \<noteq> act ''bottom''
      then es @ [act] else es)"

text \<open>Calls that are a reset, and calls whose reset finds the store.\<close>

fun is_reset :: "call \<Rightarrow> bool" where
  "is_reset (ResetTips env) = True"
| "is_reset c = False"

fun reset_ok :: "call \<Rightarrow> bool" where
  "reset_ok (ResetTips env) = (store env \<noteq> None)"
| "reset_ok c = True"

subsection \<open>The evaluation without the exhaustion flag\<close>

text \<open>
  The specification calls the flag a pure optimisation: the selection must be the one
  that a full walk of the scope's list produces. \<open>performStep_rewalk\<close> is that full walk:
  \<^verbatim>\<open>_performStep\<close> without its first line and without its last statement; \<open>tick_rewalk\<close>,
  \<open>exec_rewalk\<close> and \<open>run_rewalk\<close> are the tick and the runs over it.
\<close>

definition performStep_rewalk ::
  "device \<Rightarrow> frame \<Rightarrow> string list \<Rightarrow> string \<Rightarrow> tips_state
     \<Rightarrow> (js_error + unit) \<times> tips_state" where
  "performStep_rewalk dev env tips scope s =
     (case scan dev env tips 0 s of
        (Inl e, s1) \<Rightarrow> (Inl e, s1)
      | (Inr (chosenTip, finishCount), s1) \<Rightarrow>
          (Inr (), s1\<lparr> activeTips := (activeTips s1)(scope := chosenTip) \<rparr>))"

definition tick_rewalk ::
  "device \<Rightarrow> frame \<Rightarrow> tips_state \<Rightarrow> (js_error + unit) \<times> tips_state" where
  "tick_rewalk dev env s =
     (let s1 = (if userinput_handle s then s
                else s\<lparr> userinput_handle := userinput_registered env \<rparr>)
      in if \<not> userinput_handle s1 then (Inr (), s1)
         else
           let s2 = (if mediaCounter_handle s1 then s1
                     else s1\<lparr> mediaCounter_handle := mediaCounter_registered env \<rparr>)
           in if \<not> mediaCounter_handle s2 then (Inr (), s2)
              else
                let tips = platformTips dev;
                    prevTop = activeTips s2 ''top'';
                    prevBottom = activeTips s2 ''bottom''
                in case performStep_rewalk dev env (top_tips tips) ''top'' s2 of
                     (Inl e, s3) \<Rightarrow> (Inl e, s3)
                   | (Inr u, s3) \<Rightarrow>
                       (case performStep_rewalk dev env (bottom_tips tips) ''bottom'' s3 of
                          (Inl e, s4) \<Rightarrow> (Inl e, s4)
                        | (Inr u', s4) \<Rightarrow>
                            (Inr (),
                             if prevTop \<noteq> activeTips s4 ''top''
                                \<or> prevBottom \<noteq> activeTips s4 ''bottom''
                             then s4\<lparr> emitted := emitted s4 @ [activeTips s4] \<rparr>
                             else s4)))"

definition evaluate_rewalk ::
  "device \<Rightarrow> frame \<Rightarrow> tips_state \<Rightarrow> (js_error + unit) \<times> tips_state" where
  "evaluate_rewalk dev env s2 =
     (case performStep_rewalk dev env (top_tips (platformTips dev)) ''top'' s2 of
        (Inl e, s3) \<Rightarrow> (Inl e, s3)
      | (Inr u, s3) \<Rightarrow>
          (case performStep_rewalk dev env (bottom_tips (platformTips dev)) ''bottom'' s3 of
             (Inl e, s4) \<Rightarrow> (Inl e, s4)
           | (Inr u', s4) \<Rightarrow>
               (Inr (),
                if activeTips s2 ''top'' \<noteq> activeTips s4 ''top''
                   \<or> activeTips s2 ''bottom'' \<noteq> activeTips s4 ''bottom''
                then s4\<lparr> emitted := emitted s4 @ [activeTips s4] \<rparr>
                else s4)))"

fun exec_rewalk :: "device \<Rightarrow> call \<Rightarrow> tips_state \<Rightarrow> (js_error + unit) \<times> tips_state" where
  "exec_rewalk dev (Tick env) s = tick_rewalk dev env s"
| "exec_rewalk dev (HandleTipClose fullTip scope) s = handleTipClose dev fullTip scope s"
| "exec_rewalk dev (MarkTipFinished tip) s = markTipFinished tip s"
| "exec_rewalk dev (ResetTips env) s = resetTips env s"

fun run_rewalk :: "device \<Rightarrow> call list \<Rightarrow> tips_state \<Rightarrow> tips_state" where
  "run_rewalk dev [] s = s"
| "run_rewalk dev (c # cs) s = run_rewalk dev cs (snd (exec_rewalk dev c s))"

text \<open>
  The relation between a state of the system and a state of the evaluation without the
  flag: the same record, selections, handles and events; the flagged state satisfies
  \<open>sys_inv\<close>.
\<close>

definition sim :: "device \<Rightarrow> tips_state \<Rightarrow> tips_state \<Rightarrow> bool" where
  "sim dev s r =
     (sys_inv dev s \<and> (\<exists>m. item s = JsonObject m \<and> loaded r m)
      \<and> activeTips r = activeTips s
      \<and> userinput_handle r = userinput_handle s
      \<and> mediaCounter_handle r = mediaCounter_handle s
      \<and> emitted r = emitted s)"

text \<open>
  When the stored item is not an object (a text that is not JSON, or \<^verbatim>\<open>null\<close>) every
  query and every mark throws and changes nothing (\<open>unparsed\<close>), so a scan of a
  non-empty list throws at its first tip and only an empty list can set a flag. \<open>broken\<close>
  relates the two evaluations in such states, \<open>sim_any\<close> in all states.
\<close>

definition unparsed :: "tips_state \<Rightarrow> bool" where
  "unparsed s = ((item s = NotJson \<or> item s = JsonNull) \<and> localStorageCache s = None)"

definition broken :: "device \<Rightarrow> tips_state \<Rightarrow> tips_state \<Rightarrow> bool" where
  "broken dev s r =
     (unparsed s \<and> unparsed r \<and> item r = item s
      \<and> activeTips r = activeTips s
      \<and> userinput_handle r = userinput_handle s
      \<and> mediaCounter_handle r = mediaCounter_handle s
      \<and> emitted r = emitted s
      \<and> (finishedScopes s ''top'' \<longrightarrow>
            activeTips s ''top'' = NoTip \<and> top_tips (platformTips dev) = [])
      \<and> (finishedScopes s ''bottom'' \<longrightarrow>
            activeTips s ''bottom'' = NoTip \<and> bottom_tips (platformTips dev) = []))"

definition sim_any :: "device \<Rightarrow> tips_state \<Rightarrow> tips_state \<Rightarrow> bool" where
  "sim_any dev s r = (sim dev s r \<or> broken dev s r)"

subsection \<open>Concrete frames and devices\<close>

definition desktop_device :: device where
  "desktop_device = \<lparr> isMobile = False, isMobileVR = False \<rparr>"

definition standalone_device :: device where
  "standalone_device = \<lparr> isMobile = False, isMobileVR = True \<rparr>"

text \<open>A quiet frame: both systems registered, nothing held, no objects, no store.\<close>

definition quiet_frame :: frame where
  "quiet_frame = \<lparr> userinput_registered = True, mediaCounter_registered = True,
     input = \<lparr> activeSets = {}, get = (\<lambda>p. Undefined) \<rparr>,
     scene_is = (\<lambda>name. False), count = 0, store = None \<rparr>"

text \<open>The scene frozen with one shared object, and no store.\<close>

definition frozen_frame :: frame where
  "frozen_frame = quiet_frame\<lparr> scene_is := (\<lambda>name. name = ''frozen''), count := 1 \<rparr>"

text \<open>The camera has moved (the mouse delta is an array), otherwise quiet.\<close>

definition looked_frame :: frame where
  "looked_frame = quiet_frame\<lparr> input := \<lparr> activeSets = {},
     get = (\<lambda>p. if p = smartMouseCameraDelta then Vec [Number 1, Number 0] else Undefined) \<rparr> \<rparr>"

text \<open>The states after the first and the second quiet frame on a desktop.\<close>

definition first_frame_state :: tips_state where
  "first_frame_state = snd (tick desktop_device quiet_frame (system_start NoItem))"

definition second_frame_state :: tips_state where
  "second_frame_state = snd (tick desktop_device quiet_frame first_frame_state)"

text \<open>The state after a third frame, in which the camera has moved.\<close>

definition looked_state :: tips_state where
  "looked_state = snd (tick desktop_device looked_frame first_frame_state)"

text \<open>
  The state after the top tip \<^verbatim>\<open>mute_mode\<close> has been closed in the first state (which
  finishes the whole top list), and the state one quiet frame later, when the scan has
  found the top list finished.
\<close>

definition closed_state :: tips_state where
  "closed_state = snd (handleTipClose desktop_device ''desktop.mute_mode'' ''top'' first_frame_state)"

definition exhausted_state :: tips_state where
  "exhausted_state = snd (tick desktop_device quiet_frame closed_state)"

text \<open>
  A frame in which the scene is muted, and the run in which a reset does not find the
  store: a quiet frame, the top tip closed, a quiet frame (the top flag is set), the
  reset on a frame without store, a muted frame.
\<close>

definition muted_frame :: frame where
  "muted_frame = quiet_frame\<lparr> scene_is := (\<lambda>name. name = ''muted'') \<rparr>"

definition failed_reset_run :: "call list" where
  "failed_reset_run =
     [Tick quiet_frame, HandleTipClose ''desktop.mute_mode'' ''top'', Tick quiet_frame,
      ResetTips quiet_frame, Tick muted_frame]"

text \<open>The state after the reset that did not find the store.\<close>

definition failed_reset_state :: tips_state where
  "failed_reset_state = snd (resetTips quiet_frame exhausted_state)"

section \<open>Lemmas\<close>

subsection \<open>The scan over a loaded record\<close>

text \<open>
  On a loaded state the persistence functions do not fail, and the loop \<open>scan\<close>
  computes \<open>scan_abs\<close> (\<open>scan_loaded\<close>). The properties of the loop are then proved on
  \<open>scan_abs\<close> by induction on the list: what it chooses, that it only adds finished
  entries, and when its count reaches the length of the list.
\<close>

lemma isTipFinished_loaded:
  "loaded s m \<Longrightarrow>
     isTipFinished tip s = (Inr (finished_in m tip), s\<lparr> localStorageCache := Some m \<rparr>)"
  by (auto simp: loaded_def isTipFinished_def finished_in_def)

lemma markTipFinished_object:
  "item s = JsonObject m \<Longrightarrow>
     markTipFinished tip s =
       (Inr (), s\<lparr> item := JsonObject (set_finished m tip), localStorageCache := None \<rparr>)"
  by (simp add: markTipFinished_def)

lemma VALIDATORS_proto: "VALIDATORS ''__proto__'' = None"
  by (simp add: VALIDATORS_def)

lemma set_finished_plain:
  "VALIDATORS tip \<noteq> None \<Longrightarrow> set_finished m tip = m(tip \<mapsto> \<lparr> finished = True \<rparr>)"
  using VALIDATORS_proto by (auto simp: set_finished_def)

lemma finished_in_set_finished:
  "finished_in m x \<Longrightarrow> finished_in (set_finished m tip) x"
  by (simp add: set_finished_def finished_in_def)

lemma scan_loaded:
  "loaded s m \<Longrightarrow> known tips \<Longrightarrow> scan_abs dev env tips n m = (sel, n', m') \<Longrightarrow>
     \<exists>s'. scan dev env tips n s = (Inr (sel, n'), s') \<and> loaded s' m' \<and> same_rest s s'"
proof (induction tips arbitrary: s m n)
  case Nil
  then show ?case by (simp add: same_rest_def)
next
  case (Cons tip tips)
  let ?s1 = "s\<lparr> localStorageCache := Some m \<rparr>"
  have fin: "isTipFinished tip s = (Inr (finished_in m tip), ?s1)"
    using Cons.prems(1) by (rule isTipFinished_loaded)
  have l1: "loaded ?s1 m" using Cons.prems(1) by (simp add: loaded_def)
  have k: "known tips" using Cons.prems(2) by (simp add: known_def)
  obtain validate where v: "VALIDATORS tip = Some validate"
    using Cons.prems(2) by (auto simp: known_def)
  show ?case
  proof (cases "finished_in m tip")
    case True
    then have "scan_abs dev env tips (Suc n) m = (sel, n', m')" using Cons.prems(3) by simp
    from Cons.IH [OF l1 k this] show ?thesis using True fin by (simp add: same_rest_def)
  next
    case False
    show ?thesis
    proof (cases "validate dev env")
      case INVALID
      then have "scan_abs dev env tips n m = (sel, n', m')"
        using Cons.prems(3) False v by (simp add: verdict_of_def)
      from Cons.IH [OF l1 k this] show ?thesis
        using False fin v INVALID by (simp add: same_rest_def)
    next
      case VALID
      then have "sel = Tip (qualified_name dev tip)" "n' = n" "m' = m"
        using Cons.prems(3) False v by (simp_all add: verdict_of_def)
      then show ?thesis
        using False fin v VALID l1 by (simp add: qualified_name_def same_rest_def)
    next
      case FINISH
      let ?m2 = "m(tip \<mapsto> \<lparr> finished = True \<rparr>)"
      let ?s2 = "?s1\<lparr> item := JsonObject ?m2, localStorageCache := None \<rparr>"
      have mk: "markTipFinished tip ?s1 = (Inr (), ?s2)"
        using l1 v by (simp add: markTipFinished_object loaded_def set_finished_plain)
      have l2: "loaded ?s2 ?m2" by (simp add: loaded_def)
      have "scan_abs dev env tips n ?m2 = (sel, n', m')"
        using Cons.prems(3) False v FINISH by (simp add: verdict_of_def)
      from Cons.IH [OF l2 k this] show ?thesis
        using False fin v FINISH mk by (simp add: same_rest_def)
    qed
  qed
qed

lemma finished_in_upd:
  "finished_in (m(t \<mapsto> \<lparr> finished = True \<rparr>)) x = (x = t \<or> finished_in m x)"
  by (simp add: finished_in_def)

lemma first_valid_mark:
  assumes "verdict_of dev env t \<noteq> VALID"
  shows "first_valid dev env (m(t \<mapsto> \<lparr> finished = True \<rparr>)) tips = first_valid dev env m tips"
proof -
  have "(\<lambda>tip. \<not> finished_in (m(t \<mapsto> \<lparr> finished = True \<rparr>)) tip \<and> verdict_of dev env tip = VALID)
      = (\<lambda>tip. \<not> finished_in m tip \<and> verdict_of dev env tip = VALID)"
    using assms by (auto simp: finished_in_upd)
  then show ?thesis by (simp add: first_valid_def)
qed

lemma scan_abs_choice:
  "fst (scan_abs dev env tips n m) = first_valid dev env m tips"
proof (induction tips arbitrary: n m)
  case Nil
  show ?case by (simp add: first_valid_def)
next
  case (Cons tip tips)
  let ?m2 = "m(tip \<mapsto> \<lparr> finished = True \<rparr>)"
  have ih1: "fst (scan_abs dev env tips (Suc n) m) = first_valid dev env m tips"
    by (rule Cons.IH)
  have ih2: "fst (scan_abs dev env tips n m) = first_valid dev env m tips"
    by (rule Cons.IH)
  have ih3: "fst (scan_abs dev env tips n ?m2) = first_valid dev env ?m2 tips"
    by (rule Cons.IH)
  show ?case
  proof (cases "finished_in m tip")
    case True
    then show ?thesis using ih1 by (simp add: first_valid_def)
  next
    case False
    show ?thesis
    proof (cases "verdict_of dev env tip")
      case INVALID
      then show ?thesis using False ih2 by (simp add: first_valid_def)
    next
      case VALID
      then show ?thesis using False by (simp add: first_valid_def)
    next
      case FINISH
      then have "first_valid dev env ?m2 tips = first_valid dev env m tips"
        by (simp add: first_valid_mark)
      then have "fst (scan_abs dev env tips n ?m2) = first_valid dev env m tips"
        using ih3 by simp
      moreover have "first_valid dev env m (tip # tips) = first_valid dev env m tips"
        using FINISH by (simp add: first_valid_def)
      ultimately show ?thesis
        using False FINISH by simp
    qed
  qed
qed

lemma scan_abs_mono:
  "finished_in m x \<Longrightarrow> finished_in (snd (snd (scan_abs dev env tips n m))) x"
proof (induction tips arbitrary: n m)
  case Nil
  then show ?case by simp
next
  case (Cons tip tips)
  let ?m2 = "m(tip \<mapsto> \<lparr> finished = True \<rparr>)"
  have ih1: "finished_in (snd (snd (scan_abs dev env tips (Suc n) m))) x"
    using Cons.prems by (rule Cons.IH)
  have ih2: "finished_in (snd (snd (scan_abs dev env tips n m))) x"
    using Cons.prems by (rule Cons.IH)
  have "finished_in ?m2 x" using Cons.prems by (simp add: finished_in_upd)
  then have ih3: "finished_in (snd (snd (scan_abs dev env tips n ?m2))) x"
    by (rule Cons.IH)
  show ?case using ih1 ih2 ih3 Cons.prems
    by (cases "verdict_of dev env tip") simp_all
qed

lemma scan_abs_changes:
  "snd (snd (scan_abs dev env tips n m)) x \<noteq> m x \<Longrightarrow>
     x \<in> set tips \<and> \<not> finished_in m x \<and> verdict_of dev env x = FINISH
     \<and> snd (snd (scan_abs dev env tips n m)) x = Some \<lparr> finished = True \<rparr>"
proof (induction tips arbitrary: n m)
  case Nil
  then show ?case by simp
next
  case (Cons tip tips)
  show ?case
  proof (cases "finished_in m tip")
    case True
    then have "snd (snd (scan_abs dev env tips (Suc n) m)) x \<noteq> m x"
      using Cons.prems by simp
    from Cons.IH [OF this] show ?thesis using True by simp
  next
    case False
    show ?thesis
    proof (cases "verdict_of dev env tip")
      case INVALID
      then have "snd (snd (scan_abs dev env tips n m)) x \<noteq> m x"
        using Cons.prems False by simp
      from Cons.IH [OF this] show ?thesis using False INVALID by simp
    next
      case VALID
      then show ?thesis using False Cons.prems by simp
    next
      case FINISH
      let ?m2 = "m(tip \<mapsto> \<lparr> finished = True \<rparr>)"
      have eq: "scan_abs dev env (tip # tips) n m = scan_abs dev env tips n ?m2"
        using False FINISH by simp
      show ?thesis
      proof (cases "snd (snd (scan_abs dev env tips n ?m2)) x = ?m2 x")
        case True
        then have "x = tip" using Cons.prems eq by (auto split: if_splits)
        then show ?thesis using True eq False FINISH by simp
      next
        case neq: False
        have ih: "x \<in> set tips \<and> \<not> finished_in ?m2 x \<and> verdict_of dev env x = FINISH
            \<and> snd (snd (scan_abs dev env tips n ?m2)) x = Some \<lparr> finished = True \<rparr>"
          using neq by (rule Cons.IH)
        then have "x \<noteq> tip" "\<not> finished_in m x" by (auto simp: finished_in_upd)
        then show ?thesis using ih eq by simp
      qed
    qed
  qed
qed

lemma scan_abs_count_le:
  "fst (snd (scan_abs dev env tips n m)) \<le> n + length tips"
proof (induction tips arbitrary: n m)
  case Nil
  show ?case by simp
next
  case (Cons tip tips)
  let ?m2 = "m(tip \<mapsto> \<lparr> finished = True \<rparr>)"
  have ih1: "fst (snd (scan_abs dev env tips (Suc n) m)) \<le> Suc n + length tips"
    by (rule Cons.IH)
  have ih2: "fst (snd (scan_abs dev env tips n m)) \<le> n + length tips"
    by (rule Cons.IH)
  have ih3: "fst (snd (scan_abs dev env tips n ?m2)) \<le> n + length tips"
    by (rule Cons.IH)
  show ?case
    using ih1 ih2 ih3 by (cases "verdict_of dev env tip") auto
qed

lemma scan_abs_all_finished:
  "\<forall>tip \<in> set tips. finished_in m tip \<Longrightarrow> scan_abs dev env tips n m = (NoTip, n + length tips, m)"
  by (induction tips arbitrary: n) simp_all

lemma scan_abs_full_count:
  "fst (snd (scan_abs dev env tips n m)) = n + length tips \<Longrightarrow> \<forall>tip \<in> set tips. finished_in m tip"
proof (induction tips arbitrary: n m)
  case Nil
  show ?case by simp
next
  case (Cons tip tips)
  show ?case
  proof (cases "finished_in m tip")
    case True
    then have "fst (snd (scan_abs dev env tips (Suc n) m)) = Suc n + length tips"
      using Cons.prems by simp
    from Cons.IH [OF this] show ?thesis using True by simp
  next
    case False
    have "fst (snd (scan_abs dev env (tip # tips) n m)) \<le> n + length tips"
      using False scan_abs_count_le [of dev env tips n m]
        scan_abs_count_le [of dev env tips n "m(tip \<mapsto> \<lparr> finished = True \<rparr>)"]
      by (cases "verdict_of dev env tip") auto
    then show ?thesis using Cons.prems by simp
  qed
qed

lemma scan_abs_reaches_finish:
  assumes "\<forall>t \<in> set xs. finished_in m t \<or> verdict_of dev env t \<noteq> VALID"
    and "verdict_of dev env a = FINISH"
  shows "finished_in (snd (snd (scan_abs dev env (xs @ a # ys) n m))) a"
  using assms(1)
proof (induction xs arbitrary: n m)
  case Nil
  show ?case
    using assms(2) scan_abs_mono [of m a dev env ys "Suc n"]
      scan_abs_mono [of "m(a \<mapsto> \<lparr> finished = True \<rparr>)" a dev env ys n]
    by (simp add: finished_in_upd)
next
  case (Cons x xs)
  let ?m2 = "m(x \<mapsto> \<lparr> finished = True \<rparr>)"
  have p: "\<forall>t \<in> set xs. finished_in m t \<or> verdict_of dev env t \<noteq> VALID"
    using Cons.prems by simp
  have p2: "\<forall>t \<in> set xs. finished_in ?m2 t \<or> verdict_of dev env t \<noteq> VALID"
    using Cons.prems by (simp add: finished_in_upd)
  have ih1: "finished_in (snd (snd (scan_abs dev env (xs @ a # ys) (Suc n) m))) a"
    using p by (rule Cons.IH)
  have ih2: "finished_in (snd (snd (scan_abs dev env (xs @ a # ys) n m))) a"
    using p by (rule Cons.IH)
  have ih3: "finished_in (snd (snd (scan_abs dev env (xs @ a # ys) n ?m2))) a"
    using p2 by (rule Cons.IH)
  show ?case
    using Cons.prems ih1 ih2 ih3 by (cases "verdict_of dev env x") auto
qed

lemma same_rest_refl: "same_rest s s"
  by (simp add: same_rest_def)

lemma same_rest_trans: "same_rest s s1 \<Longrightarrow> same_rest s1 s2 \<Longrightarrow> same_rest s s2"
  by (simp add: same_rest_def)

lemma isTipFinished_rest: "same_rest s (snd (isTipFinished tip s))"
  by (simp add: isTipFinished_def same_rest_def split: option.splits sum.splits)

lemma markTipFinished_rest: "same_rest s (snd (markTipFinished tip s))"
  by (simp add: markTipFinished_def same_rest_def split: option.splits sum.splits)

lemma scan_rest: "same_rest s (snd (scan dev env tips n s))"
proof (induction tips arbitrary: n s)
  case Nil
  show ?case by (simp add: same_rest_refl)
next
  case (Cons tip tips)
  obtain r s1 where f: "isTipFinished tip s = (r, s1)" by (cases "isTipFinished tip s")
  have r1: "same_rest s s1" using isTipFinished_rest [of s tip] f by simp
  obtain q s2 where k: "markTipFinished tip s1 = (q, s2)" by (cases "markTipFinished tip s1")
  have r2: "same_rest s s2"
    using markTipFinished_rest [of s1 tip] k r1 by (auto intro: same_rest_trans)
  have ih1: "same_rest s (snd (scan dev env tips (Suc n) s1))"
    using r1 Cons.IH [of s1 "Suc n"] by (rule same_rest_trans)
  have ih2: "same_rest s (snd (scan dev env tips n s1))"
    using r1 Cons.IH [of s1 n] by (rule same_rest_trans)
  have ih3: "same_rest s (snd (scan dev env tips n s2))"
    using r2 Cons.IH [of s2 n] by (rule same_rest_trans)
  show ?case
    using f k r1 r2 ih1 ih2 ih3
    by (simp split: sum.splits bool.splits option.splits verdict.splits)
qed

lemma performStep_flagged:
  "finishedScopes s scope \<Longrightarrow> performStep dev env tips scope s = (Inr (), s)"
  by (simp add: performStep_def)

lemma first_valid_all_finished:
  "\<forall>tip \<in> set tips. finished_in m tip \<Longrightarrow> first_valid dev env m tips = NoTip"
  using scan_abs_choice [of dev env tips 0 m] by (simp add: scan_abs_all_finished)

lemma performStep_scan:
  assumes "loaded s m" and "known tips" and "\<not> finishedScopes s scope"
  shows "\<exists>s'. performStep dev env tips scope s = (Inr (), s')
           \<and> loaded s' (snd (snd (scan_abs dev env tips 0 m)))
           \<and> activeTips s' = (activeTips s)(scope := first_valid dev env m tips)
           \<and> finishedScopes s' =
               (if \<forall>tip \<in> set tips. finished_in m tip
                then (finishedScopes s)(scope := True) else finishedScopes s)
           \<and> userinput_handle s' = userinput_handle s
           \<and> mediaCounter_handle s' = mediaCounter_handle s
           \<and> emitted s' = emitted s"
proof -
  obtain sel n' m' where a: "scan_abs dev env tips 0 m = (sel, n', m')"
    by (cases "scan_abs dev env tips 0 m")
  obtain s1 where sc: "scan dev env tips 0 s = (Inr (sel, n'), s1)"
    and l1: "loaded s1 m'" and rest: "same_rest s s1"
    using scan_loaded [OF assms(1,2) a] by blast
  have sel: "sel = first_valid dev env m tips"
    using scan_abs_choice [of dev env tips 0 m] a by simp
  have cnt: "(n' = length tips) = (\<forall>tip \<in> set tips. finished_in m tip)"
    using scan_abs_full_count [of dev env tips 0 m] scan_abs_all_finished [of tips m dev env 0] a
    by auto
  show ?thesis
    using assms(3) sc l1 rest sel cnt a
    by (simp add: performStep_def Let_def same_rest_def loaded_def)
qed

subsection \<open>Entries of the validator table\<close>

lemma VALIDATORS_activity:
  "VALIDATORS ''object_rotate_button'' = Some object_rotate_button"
  "VALIDATORS ''object_scale_button'' = Some object_scale_button"
  "VALIDATORS ''object_recenter_button'' = Some object_recenter_button"
  "VALIDATORS ''object_pin'' = Some object_pin"
  by (simp_all add: VALIDATORS_def)

lemma VALIDATORS_mode:
  "VALIDATORS ''pen_mode'' = Some pen_mode"
  "VALIDATORS ''freeze_mode'' = Some freeze_mode"
  "VALIDATORS ''video_share_mode'' = Some video_share_mode"
  "VALIDATORS ''mirror_mode'' = Some mirror_mode"
  "VALIDATORS ''mute_mode'' = Some mute_mode"
  by (simp_all add: VALIDATORS_def)

subsection \<open>Closing tips, and the parts of a tick\<close>

lemma markAll_rest: "same_rest s (snd (markAll tips s))"
proof (induction tips arbitrary: s)
  case Nil
  show ?case by (simp add: same_rest_refl)
next
  case (Cons tip tips)
  obtain q s1 where k: "markTipFinished tip s = (q, s1)" by (cases "markTipFinished tip s")
  have r1: "same_rest s s1" using markTipFinished_rest [of s tip] k by simp
  have "same_rest s (snd (markAll tips s1))"
    using r1 Cons.IH [of s1] by (rule same_rest_trans)
  then show ?case using k r1 by (simp split: sum.splits)
qed

lemma handleTipClose_rest: "same_rest s (snd (handleTipClose dev fullTip scope s))"
  by (simp add: handleTipClose_def markAll_rest same_rest_refl split: option.splits)

lemma mark_rec_apply:
  "''__proto__'' \<notin> set tips \<Longrightarrow>
     mark_rec tips m x = (if x \<in> set tips then Some \<lparr> finished = True \<rparr> else m x)"
  by (induction tips arbitrary: m) (auto simp: set_finished_def)

lemma markAll_object:
  "item s = JsonObject m \<Longrightarrow>
     fst (markAll tips s) = Inr () \<and> item (snd (markAll tips s)) = JsonObject (mark_rec tips m)
     \<and> localStorageCache (snd (markAll tips s)) = (if tips = [] then localStorageCache s else None)"
proof (induction tips arbitrary: s m)
  case Nil
  then show ?case by simp
next
  case (Cons tip tips)
  let ?m2 = "set_finished m tip"
  let ?s2 = "s\<lparr> item := JsonObject ?m2, localStorageCache := None \<rparr>"
  have mk: "markTipFinished tip s = (Inr (), ?s2)"
    using Cons.prems by (rule markTipFinished_object)
  have "item ?s2 = JsonObject ?m2" by simp
  then have "fst (markAll tips ?s2) = Inr ()
      \<and> item (snd (markAll tips ?s2)) = JsonObject (mark_rec tips ?m2)
      \<and> localStorageCache (snd (markAll tips ?s2)) =
          (if tips = [] then localStorageCache ?s2 else None)"
    by (rule Cons.IH)
  then show ?case using mk by simp
qed

lemma tick_cases:
  "tick dev env s =
     (if ready (resolve env s) then evaluate dev env (resolve env s)
      else (Inr (), resolve env s))"
  by (simp add: tick_def resolve_def ready_def evaluate_def Let_def)

lemma resolve_fields:
  "item (resolve env s) = item s"
  "localStorageCache (resolve env s) = localStorageCache s"
  "finishedScopes (resolve env s) = finishedScopes s"
  "activeTips (resolve env s) = activeTips s"
  "emitted (resolve env s) = emitted s"
  by (simp_all add: resolve_def Let_def)

lemma resolve_ready:
  "ready (resolve env s) =
     ((userinput_handle s \<or> userinput_registered env)
      \<and> (mediaCounter_handle s \<or> mediaCounter_registered env))"
  by (auto simp: resolve_def ready_def Let_def)

lemma resolve_of_ready: "ready s \<Longrightarrow> resolve env s = s"
  by (simp add: resolve_def ready_def)

lemma performStep_rest:
  "emitted (snd (performStep dev env tips scope s)) = emitted s
   \<and> userinput_handle (snd (performStep dev env tips scope s)) = userinput_handle s
   \<and> mediaCounter_handle (snd (performStep dev env tips scope s)) = mediaCounter_handle s
   \<and> (\<forall>sc. sc \<noteq> scope \<longrightarrow> activeTips (snd (performStep dev env tips scope s)) sc = activeTips s sc
        \<and> finishedScopes (snd (performStep dev env tips scope s)) sc = finishedScopes s sc)"
  using scan_rest [of s dev env tips 0]
  by (auto simp: performStep_def same_rest_def Let_def split: prod.splits sum.splits)

lemma evaluate_emitted:
  assumes "evaluate dev env s2 = (Inr (), s')"
  shows "emitted s' =
     (if activeTips s' ''top'' \<noteq> activeTips s2 ''top''
         \<or> activeTips s' ''bottom'' \<noteq> activeTips s2 ''bottom''
      then emitted s2 @ [activeTips s'] else emitted s2)"
proof -
  obtain r3 s3 where p3: "performStep dev env (top_tips (platformTips dev)) ''top'' s2 = (r3, s3)"
    by (cases "performStep dev env (top_tips (platformTips dev)) ''top'' s2")
  obtain r4 s4 where p4: "performStep dev env (bottom_tips (platformTips dev)) ''bottom'' s3 = (r4, s4)"
    by (cases "performStep dev env (bottom_tips (platformTips dev)) ''bottom'' s3")
  have e3: "emitted s3 = emitted s2"
    using performStep_rest [of dev env "top_tips (platformTips dev)" "''top''" s2] p3 by simp
  have e4: "emitted s4 = emitted s2"
    using performStep_rest [of dev env "bottom_tips (platformTips dev)" "''bottom''" s3] p4 e3
    by simp
  show ?thesis
    using assms p3 p4 e4 by (auto simp: evaluate_def split: sum.splits if_splits)
qed

lemma tick_rewalk_cases:
  "tick_rewalk dev env s =
     (if ready (resolve env s) then evaluate_rewalk dev env (resolve env s)
      else (Inr (), resolve env s))"
  by (simp add: tick_rewalk_def resolve_def ready_def evaluate_rewalk_def Let_def)

subsection \<open>One scope while flagged scopes are finished\<close>

text \<open>
  Every name in the platform lists has a validator, so over a stored object
  \<^verbatim>\<open>_performStep\<close> returns normally. Under \<open>sys_inv\<close> (a flagged scope has all its
  tips finished) \<open>performStep_inv\<close> describes the state it leaves and shows that
  \<open>sys_inv\<close> is kept.
\<close>

lemma known_catalog:
  "known (top_tips (platformTips dev))" "known (bottom_tips (platformTips dev))"
  by (simp_all add: known_def platformTips_def tipPlatform_def VALIDATORS_def)

lemma scope_lookup_Some:
  "scope_lookup ts scope = Some tips \<Longrightarrow>
     (scope = ''top'' \<and> tips = top_tips ts) \<or> (scope = ''bottom'' \<and> tips = bottom_tips ts)"
  by (auto simp: scope_lookup_def split: if_splits)

lemma inv_loaded: "sys_inv dev s \<Longrightarrow> item s = JsonObject m \<Longrightarrow> loaded s m"
  by (simp add: sys_inv_def loaded_def)

lemma inv_exhausted:
  "sys_inv dev s \<Longrightarrow> item s = JsonObject m \<Longrightarrow> scope_lookup (platformTips dev) scope = Some tips \<Longrightarrow>
     exhausted_ok s m scope tips"
  by (auto simp: sys_inv_def dest!: scope_lookup_Some)

lemma first_valid_skip:
  assumes "\<forall>t \<in> set xs. finished_in m t \<or> verdict_of dev env t \<noteq> VALID"
  shows "first_valid dev env m (xs @ ys) = first_valid dev env m ys"
  using assms by (induction xs) (auto simp: first_valid_def)

lemma first_valid_not_finished:
  "finished_in m t \<Longrightarrow> first_valid dev env m tips \<noteq> Tip (qualified_name dev t)"
  by (auto simp: first_valid_def qualified_name_def find_Some_iff split: option.splits)

lemma performStep_inv:
  assumes "sys_inv dev s" and "item s = JsonObject m"
    and "scope_lookup (platformTips dev) scope = Some tips"
  shows "\<exists>s'. performStep dev env tips scope s = (Inr (), s')
           \<and> sys_inv dev s'
           \<and> item s' = JsonObject (snd (snd (scan_abs dev env tips 0 m)))
           \<and> activeTips s' = (activeTips s)(scope := first_valid dev env m tips)
           \<and> userinput_handle s' = userinput_handle s
           \<and> mediaCounter_handle s' = mediaCounter_handle s
           \<and> emitted s' = emitted s"
proof (cases "finishedScopes s scope")
  case True
  have ex: "exhausted_ok s m scope tips" using assms by (rule inv_exhausted)
  then have all: "\<forall>tip \<in> set tips. finished_in m tip" and sel: "activeTips s scope = NoTip"
    using True by (simp_all add: exhausted_ok_def)
  have "(activeTips s)(scope := first_valid dev env m tips) = activeTips s"
    using sel first_valid_all_finished [OF all, of dev env] by auto
  then show ?thesis
    using True assms(1,2) all by (simp add: performStep_flagged scan_abs_all_finished)
next
  case False
  let ?m' = "snd (snd (scan_abs dev env tips 0 m))"
  have k: "known tips"
    using scope_lookup_Some [OF assms(3)] known_catalog [of dev] by auto
  have l: "loaded s m" using assms(1,2) by (rule inv_loaded)
  obtain s' where p: "performStep dev env tips scope s = (Inr (), s')"
    and l': "loaded s' ?m'"
    and act: "activeTips s' = (activeTips s)(scope := first_valid dev env m tips)"
    and fl: "finishedScopes s' =
               (if \<forall>tip \<in> set tips. finished_in m tip
                then (finishedScopes s)(scope := True) else finishedScopes s)"
    and rest: "userinput_handle s' = userinput_handle s"
      "mediaCounter_handle s' = mediaCounter_handle s" "emitted s' = emitted s"
    using performStep_scan [OF l k False, of dev env] by blast
  have mono: "finished_in m x \<Longrightarrow> finished_in ?m' x" for x
    by (rule scan_abs_mono)
  have top: "exhausted_ok s m ''top'' (top_tips (platformTips dev))"
    and bot: "exhausted_ok s m ''bottom'' (bottom_tips (platformTips dev))"
    using assms(1,2) by (simp_all add: sys_inv_def)
  have own: "exhausted_ok s' ?m' scope tips"
    using act fl mono first_valid_all_finished [of tips m dev env] False
    by (auto simp: exhausted_ok_def)
  have other: "exhausted_ok s' ?m' sc ts" if "sc \<noteq> scope" "exhausted_ok s m sc ts" for sc ts
    using that act fl mono by (auto simp: exhausted_ok_def)
  have "exhausted_ok s' ?m' ''top'' (top_tips (platformTips dev))"
    "exhausted_ok s' ?m' ''bottom'' (bottom_tips (platformTips dev))"
    using scope_lookup_Some [OF assms(3)] own other top bot by auto
  then have "sys_inv dev s'" using l' by (simp add: sys_inv_def loaded_def)
  then show ?thesis using p l' act rest by (simp add: loaded_def)
qed

subsection \<open>A tick while flagged scopes are finished\<close>

lemma grows_refl: "grows m m"
  by (simp add: grows_def)

lemma grows_trans: "grows m m1 \<Longrightarrow> grows m1 m2 \<Longrightarrow> grows m m2"
  by (simp add: grows_def)

lemma grows_scan: "grows m (snd (snd (scan_abs dev env tips n m)))"
  by (simp add: grows_def scan_abs_mono)

lemma grows_set_finished: "grows m (set_finished m tip)"
  by (simp add: grows_def finished_in_set_finished)

lemma grows_mark: "grows m (mark_rec tips m)"
proof (induction tips arbitrary: m)
  case Nil
  show ?case by (simp add: grows_def)
next
  case (Cons tip tips)
  have "grows (set_finished m tip) (mark_rec tips (set_finished m tip))" by (rule Cons.IH)
  then show ?case using grows_set_finished [of m tip] by (simp add: grows_def)
qed

lemma inv_system_start:
  "it = NoItem \<or> it = JsonObject m0 \<Longrightarrow> sys_inv dev (system_start it)"
  by (auto simp: sys_inv_def exhausted_ok_def system_start_def init_def module_load_def)

lemma inv_grows:
  assumes "sys_inv dev s" and "item s = JsonObject m" and "loaded s' m'" and "grows m m'"
    and "finishedScopes s' = finishedScopes s" and "activeTips s' = activeTips s"
  shows "sys_inv dev s'"
  using assms by (auto simp: sys_inv_def loaded_def grows_def exhausted_ok_def)

lemma inv_iff:
  "sys_inv dev s =
     (\<exists>m. loaded s m \<and> exhausted_ok s m ''top'' (top_tips (platformTips dev))
        \<and> exhausted_ok s m ''bottom'' (bottom_tips (platformTips dev)))"
  by (cases "item s") (auto simp: sys_inv_def loaded_def)

lemma inv_resolve: "sys_inv dev (resolve env s) = sys_inv dev s"
  by (simp add: inv_iff loaded_def exhausted_ok_def resolve_fields)

lemma evaluate_inv:
  assumes "sys_inv dev s" and "item s = JsonObject m"
  shows "\<exists>s'. evaluate dev env s = (Inr (), s')
           \<and> sys_inv dev s' \<and> item s' = JsonObject (eval_record dev env m)
           \<and> activeTips s' = eval_active dev env m (activeTips s)
           \<and> userinput_handle s' = userinput_handle s
           \<and> mediaCounter_handle s' = mediaCounter_handle s
           \<and> emitted s' =
               eval_emitted (activeTips s) (eval_active dev env m (activeTips s)) (emitted s)"
proof -
  have lt: "scope_lookup (platformTips dev) ''top'' = Some (top_tips (platformTips dev))"
    and lb: "scope_lookup (platformTips dev) ''bottom'' = Some (bottom_tips (platformTips dev))"
    by (simp_all add: scope_lookup_def)
  obtain s3 where p3: "performStep dev env (top_tips (platformTips dev)) ''top'' s = (Inr (), s3)"
    and i3: "sys_inv dev s3" "item s3 = JsonObject (top_record dev env m)"
    and a3: "activeTips s3 =
        (activeTips s)(''top'' := first_valid dev env m (top_tips (platformTips dev)))"
    and r3: "userinput_handle s3 = userinput_handle s"
      "mediaCounter_handle s3 = mediaCounter_handle s" "emitted s3 = emitted s"
    using performStep_inv [OF assms(1,2) lt, of env] unfolding top_record_def by blast
  obtain s4 where p4: "performStep dev env (bottom_tips (platformTips dev)) ''bottom'' s3 = (Inr (), s4)"
    and i4: "sys_inv dev s4" "item s4 = JsonObject (eval_record dev env m)"
    and a4: "activeTips s4 = (activeTips s3)(''bottom'' :=
        first_valid dev env (top_record dev env m) (bottom_tips (platformTips dev)))"
    and r4: "userinput_handle s4 = userinput_handle s3"
      "mediaCounter_handle s4 = mediaCounter_handle s3" "emitted s4 = emitted s3"
    using performStep_inv [OF i3 lb, of env] unfolding eval_record_def by blast
  have act4: "activeTips s4 = eval_active dev env m (activeTips s)"
    using a3 a4 by (simp add: eval_active_def)
  have "sys_inv dev (s4\<lparr> emitted := emitted s4 @ [activeTips s4] \<rparr>)"
    using i4(1) by (simp add: inv_iff loaded_def exhausted_ok_def)
  then show ?thesis
    using p3 p4 i4 act4 r3 r4 by (auto simp: evaluate_def eval_emitted_def)
qed

lemma performStep_rewalk_loaded:
  assumes "loaded r m" and "known tips"
  shows "\<exists>r'. performStep_rewalk dev env tips scope r = (Inr (), r')
           \<and> loaded r' (snd (snd (scan_abs dev env tips 0 m)))
           \<and> activeTips r' = (activeTips r)(scope := first_valid dev env m tips)
           \<and> userinput_handle r' = userinput_handle r
           \<and> mediaCounter_handle r' = mediaCounter_handle r
           \<and> emitted r' = emitted r"
proof -
  obtain sel n' m' where a: "scan_abs dev env tips 0 m = (sel, n', m')"
    by (cases "scan_abs dev env tips 0 m")
  obtain r1 where sc: "scan dev env tips 0 r = (Inr (sel, n'), r1)"
    and l1: "loaded r1 m'" and rest: "same_rest r r1"
    using scan_loaded [OF assms(1,2) a] by blast
  have sel: "sel = first_valid dev env m tips"
    using scan_abs_choice [of dev env tips 0 m] a by simp
  show ?thesis
    using sc l1 rest sel a by (simp add: performStep_rewalk_def same_rest_def loaded_def)
qed

lemma evaluate_rewalk_loaded:
  assumes "loaded r m"
  shows "\<exists>r'. evaluate_rewalk dev env r = (Inr (), r')
           \<and> loaded r' (eval_record dev env m)
           \<and> activeTips r' = eval_active dev env m (activeTips r)
           \<and> userinput_handle r' = userinput_handle r
           \<and> mediaCounter_handle r' = mediaCounter_handle r
           \<and> emitted r' =
               eval_emitted (activeTips r) (eval_active dev env m (activeTips r)) (emitted r)"
proof -
  obtain r3 where p3: "performStep_rewalk dev env (top_tips (platformTips dev)) ''top'' r = (Inr (), r3)"
    and l3: "loaded r3 (top_record dev env m)"
    and a3: "activeTips r3 =
        (activeTips r)(''top'' := first_valid dev env m (top_tips (platformTips dev)))"
    and r3: "userinput_handle r3 = userinput_handle r"
      "mediaCounter_handle r3 = mediaCounter_handle r" "emitted r3 = emitted r"
    using performStep_rewalk_loaded [OF assms known_catalog(1) [of dev], where dev = dev and env = env
        and scope = "''top''"]
    unfolding top_record_def by blast
  obtain r4 where p4: "performStep_rewalk dev env (bottom_tips (platformTips dev)) ''bottom'' r3 = (Inr (), r4)"
    and l4: "loaded r4 (eval_record dev env m)"
    and a4: "activeTips r4 = (activeTips r3)(''bottom'' :=
        first_valid dev env (top_record dev env m) (bottom_tips (platformTips dev)))"
    and r4: "userinput_handle r4 = userinput_handle r3"
      "mediaCounter_handle r4 = mediaCounter_handle r3" "emitted r4 = emitted r3"
    using performStep_rewalk_loaded [OF l3 known_catalog(2) [of dev], where dev = dev and env = env
        and scope = "''bottom''"]
    unfolding eval_record_def by blast
  have act4: "activeTips r4 = eval_active dev env m (activeTips r)"
    using a3 a4 by (simp add: eval_active_def)
  have "loaded (r4\<lparr> emitted := emitted r4 @ [activeTips r4] \<rparr>) (eval_record dev env m)"
    using l4 by (simp add: loaded_def)
  then show ?thesis
    using p3 p4 l4 act4 r3 r4 by (auto simp: evaluate_rewalk_def eval_emitted_def)
qed

lemma grows_eval: "grows m (eval_record dev env m)"
  unfolding eval_record_def top_record_def
  by (rule grows_trans [OF grows_scan grows_scan])

subsection \<open>Runs whose resets find the store\<close>

text \<open>
  Every call keeps \<open>sys_inv\<close>, a reset provided that it finds the store
  (\<open>reset_ok\<close>); a reset that does not find it breaks \<open>sys_inv\<close>.
\<close>

lemma handleTipClose_cases:
  "handleTipClose dev fullTip scope s = (Inl TypeError, s)
   \<or> (\<exists>marked. handleTipClose dev fullTip scope s = markAll marked s)"
  by (simp add: handleTipClose_def split: option.splits del: markAll.simps) blast

lemma markAll_loaded:
  assumes "loaded s m"
  shows "loaded (snd (markAll tips s)) (mark_rec tips m)"
  using markAll_object [of s m tips] assms by (auto simp: loaded_def)

lemma ready_same_rest: "same_rest s s' \<Longrightarrow> ready s' = ready s"
  by (simp add: same_rest_def ready_def)

lemma exec_inv:
  assumes "sys_inv dev s" and "item s = JsonObject m" and "reset_ok c"
  shows "\<exists>m'. sys_inv dev (snd (exec dev c s)) \<and> item (snd (exec dev c s)) = JsonObject m'
           \<and> (\<not> is_reset c \<longrightarrow> grows m m')
           \<and> (ready s \<longrightarrow> ready (snd (exec dev c s)))"
proof (cases c)
  case (Tick env)
  show ?thesis
  proof (cases "ready (resolve env s)")
    case True
    have i: "sys_inv dev (resolve env s)" "item (resolve env s) = JsonObject m"
      using assms(1,2) by (simp_all add: inv_resolve resolve_fields)
    obtain s' where e: "evaluate dev env (resolve env s) = (Inr (), s')"
      and i': "sys_inv dev s'" "item s' = JsonObject (eval_record dev env m)"
      and h: "userinput_handle s' = userinput_handle (resolve env s)"
        "mediaCounter_handle s' = mediaCounter_handle (resolve env s)"
      using evaluate_inv [OF i, of env] by blast
    have "ready s'" using h True by (simp add: ready_def)
    then show ?thesis
      using Tick True e i' grows_eval [of m dev env] by (auto simp: tick_cases)
  next
    case False
    then have "\<not> ready s" using resolve_of_ready [of s env] by auto
    then show ?thesis
      using Tick False assms(1,2) grows_refl [of m]
      by (auto simp: tick_cases inv_resolve resolve_fields)
  qed
next
  case (HandleTipClose fullTip scope)
  have l: "loaded s m" using assms(1,2) by (rule inv_loaded)
  consider "handleTipClose dev fullTip scope s = (Inl TypeError, s)"
    | marked where "handleTipClose dev fullTip scope s = markAll marked s"
    using handleTipClose_cases [of dev fullTip scope s] by blast
  then show ?thesis
  proof cases
    case 1
    then show ?thesis using HandleTipClose assms(1,2) grows_refl [of m] by auto
  next
    case 2
    have l': "loaded (snd (markAll marked s)) (mark_rec marked m)"
      using l by (rule markAll_loaded)
    have r: "same_rest s (snd (markAll marked s))" by (rule markAll_rest)
    have "sys_inv dev (snd (markAll marked s))"
      by (rule inv_grows [OF assms(1,2) l' grows_mark])
        (simp_all add: r [unfolded same_rest_def])
    then show ?thesis
      using HandleTipClose 2 l' grows_mark [of m marked] ready_same_rest [OF r]
      by (auto simp: loaded_def)
  qed
next
  case (MarkTipFinished tip)
  let ?m' = "set_finished m tip"
  let ?s' = "s\<lparr> item := JsonObject ?m', localStorageCache := None \<rparr>"
  have k: "markTipFinished tip s = (Inr (), ?s')"
    using assms(2) by (rule markTipFinished_object)
  have g: "grows m ?m'" by (rule grows_set_finished)
  have "sys_inv dev ?s'"
    by (rule inv_grows [OF assms(1,2) _ g]) (simp_all add: loaded_def)
  then show ?thesis using MarkTipFinished k g by (auto simp: ready_def)
next
  case (ResetTips env)
  then obtain a where "store env = Some a" using assms(3) by auto
  then show ?thesis
    using ResetTips
    by (auto simp: resetTips_def Let_def inv_iff loaded_def exhausted_ok_def ready_def)
qed

lemma run_inv:
  assumes "list_all (\<lambda>c. \<not> is_reset c) cs"
  shows "sys_inv dev s \<Longrightarrow> item s = JsonObject m \<Longrightarrow>
     \<exists>m'. sys_inv dev (run dev cs s) \<and> item (run dev cs s) = JsonObject m' \<and> grows m m'
        \<and> (ready s \<longrightarrow> ready (run dev cs s))"
  using assms
proof (induction cs arbitrary: s m)
  case Nil
  then show ?case using grows_refl [of m] by auto
next
  case (Cons c cs)
  have nr: "\<not> is_reset c" and rest: "list_all (\<lambda>c. \<not> is_reset c) cs"
    using Cons.prems(3) by simp_all
  have ok: "reset_ok c" using nr by (cases c) simp_all
  obtain m1 where i1: "sys_inv dev (snd (exec dev c s))" "item (snd (exec dev c s)) = JsonObject m1"
    and g1: "grows m m1" and r1: "ready s \<longrightarrow> ready (snd (exec dev c s))"
    using exec_inv [OF Cons.prems(1,2) ok] nr by blast
  obtain m' where "sys_inv dev (run dev cs (snd (exec dev c s)))"
    "item (run dev cs (snd (exec dev c s))) = JsonObject m'" "grows m1 m'"
    "ready (snd (exec dev c s)) \<longrightarrow> ready (run dev cs (snd (exec dev c s)))"
    using Cons.IH [OF i1 rest] by blast
  then show ?case using g1 r1 grows_trans [of m m1 m'] by auto
qed

lemma run_inv_resets:
  "list_all reset_ok cs \<Longrightarrow> sys_inv dev s \<Longrightarrow> sys_inv dev (run dev cs s)"
proof (induction cs arbitrary: s)
  case Nil
  then show ?case by simp
next
  case (Cons c cs)
  obtain m where "item s = JsonObject m"
    using Cons.prems(2) by (auto simp: inv_iff loaded_def)
  then have "sys_inv dev (snd (exec dev c s))"
    using exec_inv [of dev s m c] Cons.prems by auto
  then show ?case using Cons.IH Cons.prems(1) by simp
qed

subsection \<open>The evaluation without the flag simulates the system\<close>

text \<open>
  \<open>exec_sim\<close> is the simulation step over a stored object, \<open>exec_broken\<close> the step over
  an item that does not parse to an object; \<open>run_sim_any\<close> puts them together.
\<close>

lemma handleTipClose_closed_tips:
  "handleTipClose dev fullTip scope s =
     (case closed_tips dev fullTip scope of
        None \<Rightarrow> (Inl TypeError, s)
      | Some tips \<Rightarrow> markAll tips s)"
  by (simp add: handleTipClose_def closed_tips_def)

lemma sim_system_start:
  "it = NoItem \<or> it = JsonObject m0 \<Longrightarrow> sim dev (system_start it) (system_start it)"
  using inv_system_start [of it m0 dev]
  by (auto simp: sim_def loaded_def system_start_def init_def module_load_def)

lemma resolve_handles:
  "userinput_handle (resolve env s) = (userinput_handle s \<or> userinput_registered env)"
  "mediaCounter_handle (resolve env s) =
     (if userinput_handle s \<or> userinput_registered env
      then mediaCounter_handle s \<or> mediaCounter_registered env
      else mediaCounter_handle s)"
  by (auto simp: resolve_def Let_def)

lemma sim_resolve: "sim dev s r \<Longrightarrow> sim dev (resolve env s) (resolve env r)"
  by (simp add: sim_def inv_resolve loaded_def resolve_fields resolve_handles)

lemma sim_ready: "sim dev s r \<Longrightarrow> ready r = ready s"
  by (simp add: sim_def ready_def)

lemma exec_sim:
  assumes "sim dev s r" and "reset_ok c"
  shows "sim dev (snd (exec dev c s)) (snd (exec_rewalk dev c r))"
proof -
  obtain m where i: "sys_inv dev s" and im: "item s = JsonObject m" and lr: "loaded r m"
    and eq: "activeTips r = activeTips s" "userinput_handle r = userinput_handle s"
      "mediaCounter_handle r = mediaCounter_handle s" "emitted r = emitted s"
    using assms(1) by (auto simp: sim_def)
  show ?thesis
  proof (cases c)
    case (Tick env)
    have sr: "sim dev (resolve env s) (resolve env r)" using assms(1) by (rule sim_resolve)
    show ?thesis
    proof (cases "ready (resolve env s)")
      case True
      then have rr: "ready (resolve env r)" using sim_ready [OF sr] by simp
      have i2: "sys_inv dev (resolve env s)" "item (resolve env s) = JsonObject m"
        using i im by (simp_all add: inv_resolve resolve_fields)
      have l2: "loaded (resolve env r) m"
        using lr by (simp add: loaded_def resolve_fields)
      have eq2: "activeTips (resolve env r) = activeTips (resolve env s)"
        "userinput_handle (resolve env r) = userinput_handle (resolve env s)"
        "mediaCounter_handle (resolve env r) = mediaCounter_handle (resolve env s)"
        "emitted (resolve env r) = emitted (resolve env s)"
        using sr by (simp_all add: sim_def)
      obtain s' where es: "evaluate dev env (resolve env s) = (Inr (), s')"
        and s': "sys_inv dev s'" "item s' = JsonObject (eval_record dev env m)"
          "activeTips s' = eval_active dev env m (activeTips (resolve env s))"
          "userinput_handle s' = userinput_handle (resolve env s)"
          "mediaCounter_handle s' = mediaCounter_handle (resolve env s)"
          "emitted s' = eval_emitted (activeTips (resolve env s))
             (eval_active dev env m (activeTips (resolve env s))) (emitted (resolve env s))"
        using evaluate_inv [OF i2, of env] by blast
      obtain r' where er: "evaluate_rewalk dev env (resolve env r) = (Inr (), r')"
        and r': "loaded r' (eval_record dev env m)"
          "activeTips r' = eval_active dev env m (activeTips (resolve env r))"
          "userinput_handle r' = userinput_handle (resolve env r)"
          "mediaCounter_handle r' = mediaCounter_handle (resolve env r)"
          "emitted r' = eval_emitted (activeTips (resolve env r))
             (eval_active dev env m (activeTips (resolve env r))) (emitted (resolve env r))"
        using evaluate_rewalk_loaded [OF l2, of dev env] by blast
      have "sim dev s' r'" using s' r' eq2 by (simp add: sim_def)
      then show ?thesis
        using Tick True rr es er by (simp add: tick_cases tick_rewalk_cases)
    next
      case False
      then have "\<not> ready (resolve env r)" using sim_ready [OF sr] by simp
      then show ?thesis
        using Tick False sr by (simp add: tick_cases tick_rewalk_cases)
    qed
  next
    case (HandleTipClose fullTip scope)
    show ?thesis
    proof (cases "closed_tips dev fullTip scope")
      case None
      then show ?thesis
        using HandleTipClose assms(1) by (simp add: handleTipClose_closed_tips)
    next
      case (Some marked)
      have ls: "loaded (snd (markAll marked s)) (mark_rec marked m)"
        using inv_loaded [OF i im] by (rule markAll_loaded)
      have l': "loaded (snd (markAll marked r)) (mark_rec marked m)"
        using lr by (rule markAll_loaded)
      have rs: "same_rest s (snd (markAll marked s))" by (rule markAll_rest)
      have rr: "same_rest r (snd (markAll marked r))" by (rule markAll_rest)
      have "sys_inv dev (snd (markAll marked s))"
        by (rule inv_grows [OF i im ls grows_mark])
          (simp_all add: rs [unfolded same_rest_def])
      then have "sim dev (snd (markAll marked s)) (snd (markAll marked r))"
        using ls l' rs rr eq by (simp add: sim_def same_rest_def loaded_def)
      then show ?thesis
        using HandleTipClose Some by (simp add: handleTipClose_closed_tips)
    qed
  next
    case (MarkTipFinished tip)
    let ?m' = "set_finished m tip"
    let ?s' = "s\<lparr> item := JsonObject ?m', localStorageCache := None \<rparr>"
    let ?r' = "r\<lparr> item := JsonObject ?m', localStorageCache := None \<rparr>"
    have ks: "markTipFinished tip s = (Inr (), ?s')"
      using im by (rule markTipFinished_object)
    have kr: "markTipFinished tip r = (Inr (), ?r')"
      using lr by (simp add: markTipFinished_object loaded_def)
    have g: "grows m ?m'" by (rule grows_set_finished)
    have "sys_inv dev ?s'"
      by (rule inv_grows [OF i im _ g]) (simp_all add: loaded_def)
    then have "sim dev ?s' ?r'" using eq by (simp add: sim_def loaded_def)
    then show ?thesis using MarkTipFinished ks kr by simp
  next
    case (ResetTips env)
    then obtain a where "store env = Some a" using assms(2) by auto
    then show ?thesis
      using ResetTips eq
      by (simp add: resetTips_def Let_def sim_def inv_iff loaded_def exhausted_ok_def)
  qed
qed

lemma isTipFinished_unparsed:
  "unparsed s \<Longrightarrow> \<exists>e. isTipFinished tip s = (Inl e, s)"
  by (auto simp: unparsed_def isTipFinished_def)

lemma markTipFinished_unparsed:
  "unparsed s \<Longrightarrow> \<exists>e. markTipFinished tip s = (Inl e, s)"
  by (auto simp: unparsed_def markTipFinished_def)

lemma markAll_unparsed: "unparsed s \<Longrightarrow> snd (markAll tips s) = s"
proof (cases tips)
  case Nil
  then show ?thesis by simp
next
  case (Cons t ts)
  assume "unparsed s"
  then obtain e where "markTipFinished t s = (Inl e, s)"
    using markTipFinished_unparsed by blast
  then show ?thesis using Cons by simp
qed

lemma scan_unparsed:
  "unparsed s \<Longrightarrow> \<exists>e. scan dev env (tip # tips) n s = (Inl e, s)"
  using isTipFinished_unparsed [of s tip] by auto

lemma performStep_unparsed:
  assumes "unparsed s"
  shows "performStep dev env tips scope s =
     (if finishedScopes s scope then (Inr (), s)
      else if tips = []
      then (Inr (), s\<lparr> activeTips := (activeTips s)(scope := NoTip),
                       finishedScopes := (finishedScopes s)(scope := True) \<rparr>)
      else (Inl (case item s of NotJson \<Rightarrow> SyntaxError | _ \<Rightarrow> TypeError), s))"
proof (cases tips)
  case Nil
  then show ?thesis by (simp add: performStep_def)
next
  case (Cons t ts)
  then show ?thesis
    using assms by (auto simp: performStep_def unparsed_def isTipFinished_def)
qed

lemma performStep_rewalk_unparsed:
  assumes "unparsed r"
  shows "performStep_rewalk dev env tips scope r =
     (if tips = [] then (Inr (), r\<lparr> activeTips := (activeTips r)(scope := NoTip) \<rparr>)
      else (Inl (case item r of NotJson \<Rightarrow> SyntaxError | _ \<Rightarrow> TypeError), r))"
proof (cases tips)
  case Nil
  then show ?thesis by (simp add: performStep_rewalk_def)
next
  case (Cons t ts)
  then show ?thesis
    using assms by (auto simp: performStep_rewalk_def unparsed_def isTipFinished_def)
qed

lemma upd_NoTip_same: "f x = NoTip \<Longrightarrow> f(x := NoTip) = f"
  by auto

lemma performStep_broken:
  assumes "broken dev s r"
    and "(scope = ''top'' \<and> tips = top_tips (platformTips dev))
       \<or> (scope = ''bottom'' \<and> tips = bottom_tips (platformTips dev))"
  shows "broken dev (snd (performStep dev env tips scope s))
           (snd (performStep_rewalk dev env tips scope r))
     \<and> isl (fst (performStep dev env tips scope s))
         = isl (fst (performStep_rewalk dev env tips scope r))"
proof -
  have us: "unparsed s" and ur: "unparsed r" using assms(1) by (simp_all add: broken_def)
  have fl: "finishedScopes s scope \<longrightarrow> activeTips s scope = NoTip \<and> tips = []"
    using assms by (auto simp: broken_def)
  have act: "activeTips r = activeTips s" using assms(1) by (simp add: broken_def)
  show ?thesis
  proof (cases "tips = []")
    case False
    then have "performStep dev env tips scope s
        = (Inl (case item s of NotJson \<Rightarrow> SyntaxError | _ \<Rightarrow> TypeError), s)"
      "performStep_rewalk dev env tips scope r
        = (Inl (case item r of NotJson \<Rightarrow> SyntaxError | _ \<Rightarrow> TypeError), r)"
      using fl by (simp_all add: performStep_unparsed [OF us] performStep_rewalk_unparsed [OF ur])
    then show ?thesis using assms(1) by simp
  next
    case True
    then have pr: "performStep_rewalk dev env tips scope r
        = (Inr (), r\<lparr> activeTips := (activeTips s)(scope := NoTip) \<rparr>)"
      using act by (simp add: performStep_rewalk_unparsed [OF ur])
    show ?thesis
    proof (cases "finishedScopes s scope")
      case flagged: True
      then have "performStep dev env tips scope s = (Inr (), s)"
        by (simp add: performStep_flagged)
      moreover have "(activeTips s)(scope := NoTip) = activeTips s"
        using fl flagged by (simp add: upd_NoTip_same)
      ultimately show ?thesis
        using pr assms(1) by (simp add: broken_def unparsed_def)
    next
      case False
      then have "performStep dev env tips scope s
          = (Inr (), s\<lparr> activeTips := (activeTips s)(scope := NoTip),
                          finishedScopes := (finishedScopes s)(scope := True) \<rparr>)"
        using True by (simp add: performStep_unparsed [OF us])
      then show ?thesis
        using pr assms True by (auto simp: broken_def unparsed_def)
    qed
  qed
qed

lemma evaluate_broken:
  assumes "broken dev s r"
  shows "broken dev (snd (evaluate dev env s)) (snd (evaluate_rewalk dev env r))"
proof -
  let ?top = "top_tips (platformTips dev)" and ?bot = "bottom_tips (platformTips dev)"
  obtain o3 s3 where p3: "performStep dev env ?top ''top'' s = (o3, s3)"
    by (cases "performStep dev env ?top ''top'' s")
  obtain q3 r3 where w3: "performStep_rewalk dev env ?top ''top'' r = (q3, r3)"
    by (cases "performStep_rewalk dev env ?top ''top'' r")
  have b3: "broken dev s3 r3" and o3: "isl o3 = isl q3"
    using performStep_broken [OF assms, of "''top''" ?top env] p3 w3 by simp_all
  obtain o4 s4 where p4: "performStep dev env ?bot ''bottom'' s3 = (o4, s4)"
    by (cases "performStep dev env ?bot ''bottom'' s3")
  obtain q4 r4 where w4: "performStep_rewalk dev env ?bot ''bottom'' r3 = (q4, r4)"
    by (cases "performStep_rewalk dev env ?bot ''bottom'' r3")
  have b4: "broken dev s4 r4" and o4: "isl o4 = isl q4"
    using performStep_broken [OF b3, of "''bottom''" ?bot env] p4 w4 by simp_all
  have e: "activeTips r = activeTips s" "activeTips r4 = activeTips s4" "emitted r4 = emitted s4"
    using assms b4 by (simp_all add: broken_def)
  have b5: "broken dev (s4\<lparr> emitted := emitted s4 @ [activeTips s4] \<rparr>)
      (r4\<lparr> emitted := emitted s4 @ [activeTips s4] \<rparr>)"
    using b4 by (simp add: broken_def unparsed_def)
  show ?thesis
  proof (cases o3)
    case (Inl e3)
    then obtain f3 where "q3 = Inl f3" using o3 by (cases q3) simp_all
    then show ?thesis
      using Inl p3 w3 b3 by (simp add: evaluate_def evaluate_rewalk_def)
  next
    case (Inr u3)
    then obtain v3 where q3: "q3 = Inr v3" using o3 by (cases q3) simp_all
    show ?thesis
    proof (cases o4)
      case (Inl e4)
      then obtain f4 where "q4 = Inl f4" using o4 by (cases q4) simp_all
      then show ?thesis
        using Inl Inr q3 p3 w3 p4 w4 b4 by (simp add: evaluate_def evaluate_rewalk_def)
    next
      case inr4: (Inr u4)
      then obtain v4 where "q4 = Inr v4" using o4 by (cases q4) simp_all
      then show ?thesis
        using inr4 Inr q3 p3 w3 p4 w4 b4 b5 e by (simp add: evaluate_def evaluate_rewalk_def)
    qed
  qed
qed

lemma sim_any_system_start: "sim_any dev (system_start it) (system_start it)"
proof (cases it)
  case NoItem
  then show ?thesis using sim_system_start [of it Map.empty dev] by (simp add: sim_any_def)
next
  case (JsonObject m0)
  then show ?thesis using sim_system_start [of it m0 dev] by (simp add: sim_any_def)
next
  case NotJson
  then show ?thesis
    by (simp add: sim_any_def broken_def unparsed_def system_start_def init_def module_load_def)
next
  case JsonNull
  then show ?thesis
    by (simp add: sim_any_def broken_def unparsed_def system_start_def init_def module_load_def)
qed

lemma broken_resolve: "broken dev s r \<Longrightarrow> broken dev (resolve env s) (resolve env r)"
  by (simp add: broken_def unparsed_def resolve_fields resolve_handles)

lemma broken_ready: "broken dev s r \<Longrightarrow> ready r = ready s"
  by (simp add: broken_def ready_def)

lemma exec_broken:
  assumes "broken dev s r" and "reset_ok c"
  shows "sim_any dev (snd (exec dev c s)) (snd (exec_rewalk dev c r))"
proof (cases c)
  case (Tick env)
  have br: "broken dev (resolve env s) (resolve env r)" using assms(1) by (rule broken_resolve)
  show ?thesis
    using Tick br broken_ready [OF br] evaluate_broken [OF br, of env]
    by (simp add: tick_cases tick_rewalk_cases sim_any_def)
next
  case (HandleTipClose fullTip scope)
  have "unparsed s" "unparsed r" using assms(1) by (simp_all add: broken_def)
  then have "snd (handleTipClose dev fullTip scope s) = s"
    "snd (handleTipClose dev fullTip scope r) = r"
    by (simp_all add: handleTipClose_closed_tips markAll_unparsed split: option.splits)
  then show ?thesis using HandleTipClose assms(1) by (simp add: sim_any_def)
next
  case (MarkTipFinished tip)
  have "unparsed s" "unparsed r" using assms(1) by (simp_all add: broken_def)
  then have "snd (markTipFinished tip s) = s" "snd (markTipFinished tip r) = r"
    using markTipFinished_unparsed [of s tip] markTipFinished_unparsed [of r tip] by auto
  then show ?thesis using MarkTipFinished assms(1) by (simp add: sim_any_def)
next
  case (ResetTips env)
  then obtain a where "store env = Some a" using assms(2) by auto
  then show ?thesis
    using ResetTips assms(1)
    by (simp add: resetTips_def Let_def sim_any_def sim_def inv_iff loaded_def
        exhausted_ok_def broken_def)
qed

lemma exec_sim_any:
  "sim_any dev s r \<Longrightarrow> reset_ok c \<Longrightarrow> sim_any dev (snd (exec dev c s)) (snd (exec_rewalk dev c r))"
  using exec_sim [of dev s r c] exec_broken [of dev s r c] by (auto simp: sim_any_def)

lemma run_sim_any:
  "list_all reset_ok cs \<Longrightarrow> sim_any dev s r \<Longrightarrow> sim_any dev (run dev cs s) (run_rewalk dev cs r)"
proof (induction cs arbitrary: s r)
  case Nil
  then show ?case by simp
next
  case (Cons c cs)
  have "sim_any dev (snd (exec dev c s)) (snd (exec_rewalk dev c r))"
    using Cons.prems by (simp add: exec_sim_any)
  then show ?case using Cons.IH Cons.prems(1) by simp
qed

text \<open>
  The comparison of the two evaluations: over any sequence of calls whose resets find the
  store, from the start of the system over any stored item, the run with the flag and the
  run with the full walk end with the same selections, events and stored item. (When the
  flag is set in such a run every tip of the list is finished, so the full walk calls no
  validator either.)
\<close>

lemma flag_refinement_when_resets_complete:
  assumes "list_all reset_ok cs"
  shows "activeTips (run dev cs (system_start it)) = activeTips (run_rewalk dev cs (system_start it))
     \<and> emitted (run dev cs (system_start it)) = emitted (run_rewalk dev cs (system_start it))
     \<and> item (run dev cs (system_start it)) = item (run_rewalk dev cs (system_start it))"
  using run_sim_any [OF assms sim_any_system_start, of dev it]
  by (auto simp: sim_any_def sim_def loaded_def broken_def)

text \<open>
  A reset that does not find the store throws after the record has been cleared and
  before \<^verbatim>\<open>finishedScopes\<close> is: the flags survive it, over an empty record.
\<close>

lemma failed_reset_keeps_flags:
  "store env = None \<Longrightarrow>
     fst (resetTips env s) = Inl TypeError
     \<and> item (snd (resetTips env s)) = JsonObject Map.empty
     \<and> finishedScopes (snd (resetTips env s)) = finishedScopes s"
  by (simp add: resetTips_def Let_def)

subsection \<open>What every call keeps\<close>

text \<open>
  \<open>wf_state\<close> holds at the start over any stored item and is kept by every call: by a
  tick on any frame, also one that throws; by closing and marking; by a reset, also one
  that throws because the store is absent.
\<close>

lemma cache_ok_iff:
  "cache_ok s = (\<forall>c. localStorageCache s = Some c \<longrightarrow> item s = JsonObject c)"
  by (cases "localStorageCache s") (simp_all add: cache_ok_def)

lemma cache_ok_loaded: "cache_ok s \<Longrightarrow> item s = JsonObject m \<Longrightarrow> loaded s m"
  by (cases "localStorageCache s") (simp_all add: cache_ok_def loaded_def)

lemma cache_ok_isTipFinished: "cache_ok s \<Longrightarrow> cache_ok (snd (isTipFinished tip s))"
  by (cases "item s") (auto simp: cache_ok_iff isTipFinished_def split: option.splits)

lemma cache_ok_markTipFinished: "cache_ok s \<Longrightarrow> cache_ok (snd (markTipFinished tip s))"
  by (cases "item s") (auto simp: cache_ok_iff markTipFinished_def split: option.splits)

lemma cache_ok_scan: "cache_ok s \<Longrightarrow> cache_ok (snd (scan dev env tips n s))"
proof (induction tips arbitrary: n s)
  case Nil
  then show ?case by simp
next
  case (Cons tip tips)
  obtain r s1 where f: "isTipFinished tip s = (r, s1)" by (cases "isTipFinished tip s")
  have c1: "cache_ok s1" using cache_ok_isTipFinished [OF Cons.prems, of tip] f by simp
  obtain q s2 where k: "markTipFinished tip s1 = (q, s2)" by (cases "markTipFinished tip s1")
  have c2: "cache_ok s2" using cache_ok_markTipFinished [OF c1, of tip] k by simp
  have ih1: "cache_ok (snd (scan dev env tips (Suc n) s1))" using c1 by (rule Cons.IH)
  have ih2: "cache_ok (snd (scan dev env tips n s1))" using c1 by (rule Cons.IH)
  have ih3: "cache_ok (snd (scan dev env tips n s2))" using c2 by (rule Cons.IH)
  show ?case
    using f k c1 c2 ih1 ih2 ih3
    by (simp split: sum.splits bool.splits option.splits verdict.splits)
qed

lemma scan_count:
  "scan dev env tips n s = (Inr (sel, n'), s') \<Longrightarrow>
     n' \<le> n + length tips \<and> (sel \<noteq> NoTip \<longrightarrow> n' < n + length tips)"
proof (induction tips arbitrary: n s)
  case Nil
  then show ?case by simp
next
  case (Cons tip tips)
  obtain r s1 where f: "isTipFinished tip s = (r, s1)" by (cases "isTipFinished tip s")
  obtain q s2 where k: "markTipFinished tip s1 = (q, s2)" by (cases "markTipFinished tip s1")
  have ih1: "scan dev env tips (Suc n) s1 = (Inr (sel, n'), s') \<Longrightarrow>
      n' \<le> Suc n + length tips \<and> (sel \<noteq> NoTip \<longrightarrow> n' < Suc n + length tips)"
    by (rule Cons.IH)
  have ih2: "scan dev env tips n s1 = (Inr (sel, n'), s') \<Longrightarrow>
      n' \<le> n + length tips \<and> (sel \<noteq> NoTip \<longrightarrow> n' < n + length tips)"
    by (rule Cons.IH)
  have ih3: "scan dev env tips n s2 = (Inr (sel, n'), s') \<Longrightarrow>
      n' \<le> n + length tips \<and> (sel \<noteq> NoTip \<longrightarrow> n' < n + length tips)"
    by (rule Cons.IH)
  show ?case
    using Cons.prems f k ih1 ih2 ih3
    by (auto split: sum.splits bool.splits option.splits verdict.splits)
qed

lemma performStep_wf:
  assumes "wf_state s" and "userinput_handle s" and "mediaCounter_handle s"
  shows "wf_state (snd (performStep dev env tips scope s))"
proof (cases "finishedScopes s scope")
  case True
  then show ?thesis using assms(1) by (simp add: performStep_flagged)
next
  case False
  obtain r s1 where sc: "scan dev env tips 0 s = (r, s1)" by (cases "scan dev env tips 0 s")
  have c1: "cache_ok s1" using cache_ok_scan [of s dev env tips 0] assms(1) sc
    by (simp add: wf_state_def)
  have r1: "same_rest s s1" using scan_rest [of s dev env tips 0] sc by simp
  have w1: "wf_state s1" using assms(1) c1 r1 by (simp add: wf_state_def same_rest_def)
  show ?thesis
  proof (cases r)
    case (Inl e)
    then show ?thesis using False sc w1 by (simp add: performStep_def)
  next
    case (Inr p)
    obtain sel n' where p: "p = (sel, n')" by (cases p)
    have cnt: "n' = length tips \<longrightarrow> sel = NoTip"
      using scan_count [of dev env tips 0 s sel n' s1] sc Inr p by auto
    let ?s2 = "s1\<lparr> activeTips := (activeTips s1)(scope := sel) \<rparr>"
    have h: "userinput_handle s1" "mediaCounter_handle s1"
      using assms(2,3) r1 by (simp_all add: same_rest_def)
    have nf: "\<not> finishedScopes s1 scope" using False r1 by (simp add: same_rest_def)
    have w2: "wf_state ?s2"
      using w1 h nf by (auto simp: wf_state_def cache_ok_iff)
    have w3: "sel = NoTip \<Longrightarrow> wf_state (?s2\<lparr> finishedScopes := (finishedScopes ?s2)(scope := True) \<rparr>)"
      using w2 by (auto simp: wf_state_def cache_ok_iff)
    show ?thesis
      using False sc Inr p cnt w2 w3 by (simp add: performStep_def Let_def)
  qed
qed

lemma evaluate_wf:
  assumes "wf_state s" and "ready s"
  shows "wf_state (snd (evaluate dev env s))"
proof -
  let ?top = "top_tips (platformTips dev)" and ?bot = "bottom_tips (platformTips dev)"
  have h: "userinput_handle s" "mediaCounter_handle s" using assms(2) by (simp_all add: ready_def)
  obtain o3 s3 where p3: "performStep dev env ?top ''top'' s = (o3, s3)"
    by (cases "performStep dev env ?top ''top'' s")
  have w3: "wf_state s3" using performStep_wf [OF assms(1) h, of dev env ?top "''top''"] p3 by simp
  have h3: "userinput_handle s3" "mediaCounter_handle s3"
    using performStep_rest [of dev env ?top "''top''" s] p3 h by simp_all
  obtain o4 s4 where p4: "performStep dev env ?bot ''bottom'' s3 = (o4, s4)"
    by (cases "performStep dev env ?bot ''bottom'' s3")
  have w4: "wf_state s4"
    using performStep_wf [OF w3 h3, of dev env ?bot "''bottom''"] p4 by simp
  have w5: "wf_state (s4\<lparr> emitted := emitted s4 @ [activeTips s4] \<rparr>)"
    using w4 by (simp add: wf_state_def cache_ok_iff)
  show ?thesis
    using p3 p4 w3 w4 w5 by (simp add: evaluate_def split: sum.splits)
qed

lemma wf_resolve: "wf_state s \<Longrightarrow> wf_state (resolve env s)"
  by (auto simp: wf_state_def cache_ok_iff resolve_fields resolve_handles)

lemma tick_wf: "wf_state s \<Longrightarrow> wf_state (snd (tick dev env s))"
  using evaluate_wf [of "resolve env s" dev env] wf_resolve [of s env]
  by (simp add: tick_cases)

lemma wf_same_rest:
  "wf_state s \<Longrightarrow> same_rest s s' \<Longrightarrow> cache_ok s' \<Longrightarrow> wf_state s'"
  by (simp add: wf_state_def same_rest_def)

lemma cache_ok_markAll: "cache_ok s \<Longrightarrow> cache_ok (snd (markAll tips s))"
proof (induction tips arbitrary: s)
  case Nil
  then show ?case by simp
next
  case (Cons tip tips)
  obtain q s1 where k: "markTipFinished tip s = (q, s1)" by (cases "markTipFinished tip s")
  have c1: "cache_ok s1" using cache_ok_markTipFinished [OF Cons.prems, of tip] k by simp
  have "cache_ok (snd (markAll tips s1))" using c1 by (rule Cons.IH)
  then show ?case using k c1 by (simp split: sum.splits)
qed

lemma wf_exec: "wf_state s \<Longrightarrow> wf_state (snd (exec dev c s))"
proof (cases c)
  case (Tick env)
  assume "wf_state s"
  then show ?thesis using Tick by (simp add: tick_wf)
next
  case (HandleTipClose fullTip scope)
  assume w: "wf_state s"
  then have "cache_ok (snd (handleTipClose dev fullTip scope s))"
    by (simp add: handleTipClose_closed_tips cache_ok_markAll wf_state_def split: option.splits)
  then show ?thesis
    using HandleTipClose w handleTipClose_rest [of s dev fullTip scope]
    by (simp add: wf_same_rest)
next
  case (MarkTipFinished tip)
  assume w: "wf_state s"
  then have "cache_ok (snd (markTipFinished tip s))"
    by (simp add: cache_ok_markTipFinished wf_state_def)
  then show ?thesis
    using MarkTipFinished w markTipFinished_rest [of s tip] by (simp add: wf_same_rest)
next
  case (ResetTips env)
  assume "wf_state s"
  then show ?thesis
    using ResetTips
    by (auto simp: resetTips_def Let_def wf_state_def cache_ok_iff split: option.splits)
qed

lemma wf_run: "wf_state s \<Longrightarrow> wf_state (run dev cs s)"
  by (induction cs arbitrary: s) (simp_all add: wf_exec)

lemma wf_system_start: "wf_state (system_start it)"
  by (simp add: wf_state_def cache_ok_iff system_start_def init_def module_load_def)

subsection \<open>Finished tips stay finished and unselected\<close>

text \<open>
  Over a stored object (with \<open>wf_state\<close>) a scope's step returns normally, only adds
  finished entries, and selects the first unfinished valid tip unless the scope is
  flagged; so does a tick, and no call but a reset removes a finished entry.
\<close>

lemma performStep_loaded:
  assumes "loaded s m" and "known tips"
  shows "\<exists>s' m'. performStep dev env tips scope s = (Inr (), s')
           \<and> loaded s' m' \<and> grows m m'
           \<and> activeTips s' scope =
               (if finishedScopes s scope then activeTips s scope
                else first_valid dev env m tips)"
proof (cases "finishedScopes s scope")
  case True
  then show ?thesis using assms(1) grows_refl [of m] by (auto simp: performStep_flagged)
next
  case False
  obtain s' where "performStep dev env tips scope s = (Inr (), s')"
    "loaded s' (snd (snd (scan_abs dev env tips 0 m)))"
    "activeTips s' = (activeTips s)(scope := first_valid dev env m tips)"
    using performStep_scan [OF assms False, of dev env] by blast
  then show ?thesis
    using False grows_scan [of m dev env tips 0] by auto
qed

lemma evaluate_skips_finished:
  assumes "wf_state s" and "item s = JsonObject m" and "finished_in m t"
    and "scope \<in> {''top'', ''bottom''}"
  shows "\<exists>s' m'. evaluate dev env s = (Inr (), s') \<and> item s' = JsonObject m' \<and> grows m m'
           \<and> activeTips s' scope \<noteq> Tip (qualified_name dev t)"
proof -
  let ?top = "top_tips (platformTips dev)" and ?bot = "bottom_tips (platformTips dev)"
  have l: "loaded s m" using assms(1,2) by (simp add: wf_state_def cache_ok_loaded)
  have n: "\<And>sc. finishedScopes s sc \<longrightarrow> activeTips s sc = NoTip"
    using assms(1) by (simp add: wf_state_def)
  obtain s3 m3 where p3: "performStep dev env ?top ''top'' s = (Inr (), s3)"
    and l3: "loaded s3 m3" and g3: "grows m m3"
    and a3: "activeTips s3 ''top'' =
        (if finishedScopes s ''top'' then activeTips s ''top'' else first_valid dev env m ?top)"
    using performStep_loaded [OF l known_catalog(1) [of dev], where dev = dev and env = env
        and scope = "''top''"] by blast
  have r3: "activeTips s3 ''bottom'' = activeTips s ''bottom''"
    "finishedScopes s3 ''bottom'' = finishedScopes s ''bottom''"
    using performStep_rest [of dev env ?top "''top''" s] p3 by simp_all
  have f3: "finished_in m3 t" using g3 assms(3) by (simp add: grows_def)
  obtain s4 m4 where p4: "performStep dev env ?bot ''bottom'' s3 = (Inr (), s4)"
    and l4: "loaded s4 m4" and g4: "grows m3 m4"
    and a4: "activeTips s4 ''bottom'' =
        (if finishedScopes s3 ''bottom'' then activeTips s3 ''bottom''
         else first_valid dev env m3 ?bot)"
    using performStep_loaded [OF l3 known_catalog(2) [of dev], where dev = dev and env = env
        and scope = "''bottom''"] by blast
  have r4: "activeTips s4 ''top'' = activeTips s3 ''top''"
    using performStep_rest [of dev env ?bot "''bottom''" s3] p4 by simp
  have top: "activeTips s4 ''top'' \<noteq> Tip (qualified_name dev t)"
    using r4 a3 n [of "''top''"] first_valid_not_finished [OF assms(3), of dev env ?top]
    by (auto split: if_splits)
  have bot: "activeTips s4 ''bottom'' \<noteq> Tip (qualified_name dev t)"
    using a4 r3 n [of "''bottom''"] first_valid_not_finished [OF f3, of dev env ?bot]
    by (auto split: if_splits)
  have g: "grows m m4" using g3 g4 by (rule grows_trans)
  have sel: "activeTips s4 scope \<noteq> Tip (qualified_name dev t)"
    using assms(4) top bot by auto
  show ?thesis
    using p3 p4 l4 g sel by (auto simp: evaluate_def loaded_def)
qed

lemma tick_skips_finished:
  assumes "wf_state s" and "item s = JsonObject m" and "finished_in m t"
    and "scope \<in> {''top'', ''bottom''}"
  shows "fst (tick dev env s) = Inr ()
     \<and> (\<exists>m'. item (snd (tick dev env s)) = JsonObject m' \<and> grows m m')
     \<and> activeTips (snd (tick dev env s)) scope \<noteq> Tip (qualified_name dev t)"
proof (cases "ready (resolve env s)")
  case True
  have w: "wf_state (resolve env s)" using assms(1) by (rule wf_resolve)
  have i: "item (resolve env s) = JsonObject m" using assms(2) by (simp add: resolve_fields)
  show ?thesis
    using evaluate_skips_finished [OF w i assms(3,4), of dev env] True
    by (auto simp: tick_cases)
next
  case False
  then have "\<not> ready s" using resolve_of_ready [of s env] by auto
  then have "activeTips s scope \<noteq> Tip (qualified_name dev t)"
    using assms(1) by (auto simp: wf_state_def ready_def)
  then show ?thesis
    using False assms(2) grows_refl [of m] by (auto simp: tick_cases resolve_fields)
qed

lemma exec_grows:
  assumes "wf_state s" and "item s = JsonObject m" and "\<not> is_reset c"
  shows "\<exists>m'. item (snd (exec dev c s)) = JsonObject m' \<and> grows m m'"
proof (cases c)
  case (Tick env)
  have "\<not> finished_in Map.empty x" for x by (simp add: finished_in_def)
  show ?thesis
  proof (cases "ready (resolve env s)")
    case True
    have w: "wf_state (resolve env s)" using assms(1) by (rule wf_resolve)
    have l: "loaded (resolve env s) m"
      using w assms(2) by (simp add: wf_state_def cache_ok_loaded resolve_fields)
    obtain s3 m3 where p3: "performStep dev env (top_tips (platformTips dev)) ''top''
          (resolve env s) = (Inr (), s3)" and l3: "loaded s3 m3" and g3: "grows m m3"
      using performStep_loaded [OF l known_catalog(1) [of dev], where dev = dev and env = env
        and scope = "''top''"] by blast
    obtain s4 m4 where p4: "performStep dev env (bottom_tips (platformTips dev)) ''bottom''
          s3 = (Inr (), s4)" and l4: "loaded s4 m4" and g4: "grows m3 m4"
      using performStep_loaded [OF l3 known_catalog(2) [of dev], where dev = dev and env = env
        and scope = "''bottom''"] by blast
    show ?thesis
      using Tick True p3 p4 l4 grows_trans [OF g3 g4]
      by (auto simp: tick_cases evaluate_def loaded_def)
  next
    case False
    then show ?thesis
      using Tick assms(2) grows_refl [of m] by (auto simp: tick_cases resolve_fields)
  qed
next
  case (HandleTipClose fullTip scope)
  show ?thesis
  proof (cases "closed_tips dev fullTip scope")
    case None
    then show ?thesis
      using HandleTipClose assms(2) grows_refl [of m] by (auto simp: handleTipClose_closed_tips)
  next
    case (Some marked)
    then show ?thesis
      using HandleTipClose markAll_object [OF assms(2), of marked] grows_mark [of m marked]
      by (auto simp: handleTipClose_closed_tips)
  qed
next
  case (MarkTipFinished tip)
  then show ?thesis
    using markTipFinished_object [OF assms(2), of tip] grows_set_finished [of m tip] by auto
next
  case (ResetTips env)
  then show ?thesis using assms(3) by simp
qed

lemma run_grows:
  "list_all (\<lambda>c. \<not> is_reset c) cs \<Longrightarrow> wf_state s \<Longrightarrow> item s = JsonObject m \<Longrightarrow>
     \<exists>m'. item (run dev cs s) = JsonObject m' \<and> grows m m'"
proof (induction cs arbitrary: s m)
  case Nil
  then show ?case using grows_refl [of m] by auto
next
  case (Cons c cs)
  have nr: "\<not> is_reset c" and rest: "list_all (\<lambda>c. \<not> is_reset c) cs"
    using Cons.prems(1) by simp_all
  obtain m1 where i1: "item (snd (exec dev c s)) = JsonObject m1" and g1: "grows m m1"
    using exec_grows [OF Cons.prems(2,3) nr] by blast
  have w1: "wf_state (snd (exec dev c s))" using Cons.prems(2) by (rule wf_exec)
  obtain m' where "item (run dev cs (snd (exec dev c s))) = JsonObject m'" "grows m1 m'"
    using Cons.IH [OF rest w1 i1] by blast
  then show ?case using g1 grows_trans [of m m1 m'] by auto
qed

subsection \<open>The standalone platform\<close>

lemma performStep_empty:
  "performStep dev env [] scope s =
     (Inr (), if finishedScopes s scope then s
              else s\<lparr> activeTips := (activeTips s)(scope := NoTip),
                      finishedScopes := (finishedScopes s)(scope := True) \<rparr>)"
  by (simp add: performStep_def)

lemma platformTips_standalone:
  "isMobileVR dev \<Longrightarrow> platformTips dev = \<lparr> top_tips = [], bottom_tips = [] \<rparr>"
  by (simp add: platformTips_def tipPlatform_def)

lemma evaluate_standalone:
  assumes "isMobileVR dev" and "scope \<in> {''top'', ''bottom''}"
  shows "fst (evaluate dev env s) = Inr ()
     \<and> finishedScopes (snd (evaluate dev env s)) scope
     \<and> activeTips (snd (evaluate dev env s)) scope =
         (if finishedScopes s scope then activeTips s scope else NoTip)"
  using assms
  by (auto simp: evaluate_def platformTips_standalone performStep_empty)

lemma exec_standalone_keeps:
  assumes "isMobileVR dev" and "scope \<in> {''top'', ''bottom''}" and "\<not> is_reset c"
    and "finishedScopes s scope" and "activeTips s scope = NoTip"
  shows "finishedScopes (snd (exec dev c s)) scope \<and> activeTips (snd (exec dev c s)) scope = NoTip"
proof (cases c)
  case (Tick env)
  show ?thesis
    using evaluate_standalone [OF assms(1,2), of env "resolve env s"] assms(4,5) Tick
    by (simp add: tick_cases resolve_fields)
next
  case (HandleTipClose fullTip sc)
  then show ?thesis
    using handleTipClose_rest [of s dev fullTip sc] assms(4,5) by (simp add: same_rest_def)
next
  case (MarkTipFinished tip)
  then show ?thesis
    using markTipFinished_rest [of s tip] assms(4,5) by (simp add: same_rest_def)
next
  case (ResetTips env)
  then show ?thesis using assms(3) by simp
qed

lemma run_standalone_keeps:
  assumes "isMobileVR dev" and "scope \<in> {''top'', ''bottom''}"
  shows "list_all (\<lambda>c. \<not> is_reset c) cs \<Longrightarrow> finishedScopes s scope \<Longrightarrow>
     activeTips s scope = NoTip \<Longrightarrow>
     finishedScopes (run dev cs s) scope \<and> activeTips (run dev cs s) scope = NoTip"
proof (induction cs arbitrary: s)
  case Nil
  then show ?case by simp
next
  case (Cons c cs)
  have "finishedScopes (snd (exec dev c s)) scope \<and> activeTips (snd (exec dev c s)) scope = NoTip"
    using exec_standalone_keeps [OF assms, of c s] Cons.prems by simp
  then show ?case using Cons.IH [of "snd (exec dev c s)"] Cons.prems by simp
qed

subsection \<open>Evaluation on concrete inputs\<close>

text \<open>
  The definitions that the simplifier unfolds to run the model on concrete frames, and
  the fields of the concrete states used in the examples.
\<close>

lemmas tips_eval =
  tick_def performStep_def isTipFinished_def markTipFinished_def set_finished_def
  handleTipClose_def
  system_start_def init_def module_load_def VALIDATORS_def platformTips_def tipPlatform_def
  scope_lookup_def LOCAL_CLOSE_TIPS_def finished_in_def verdict_of_def qualified_name_def
  desktop_device_def standalone_device_def quiet_frame_def frozen_frame_def looked_frame_def
  has_def Let_def

lemmas validator_defs =
  look_def locomotion_def turning_def spawn_menu_def freeze_gesture_def menu_hover_def
  invite_def object_grab_def object_rotate_button_def object_scale_button_def
  object_recenter_button_def object_pin_def object_zoom_def object_scale_def pen_color_def
  pen_size_def pen_mode_def freeze_mode_def video_share_mode_def mirror_mode_def mute_mode_def

lemma first_frame_state_eval:
  "tick desktop_device quiet_frame (system_start NoItem) = (Inr (), first_frame_state)"
  "userinput_handle first_frame_state" "mediaCounter_handle first_frame_state"
  "activeTips first_frame_state ''top'' = NoTip"
  "activeTips first_frame_state ''bottom'' = Tip ''desktop.look''"
  "activeTips (system_start NoItem) ''top'' = Unset"
  "emitted (system_start NoItem) = []"
  "item first_frame_state = JsonObject Map.empty"
  "localStorageCache first_frame_state = Some Map.empty"
  "finishedScopes first_frame_state = (\<lambda>scope. False)"
  unfolding first_frame_state_def
  by (simp_all add: tips_eval validator_defs prod_eq_iff)

lemma second_frame_state_eval:
  "tick desktop_device quiet_frame first_frame_state = (Inr (), second_frame_state)"
  "userinput_handle second_frame_state" "mediaCounter_handle second_frame_state"
  "activeTips second_frame_state ''top'' = NoTip"
  "activeTips second_frame_state ''bottom'' = Tip ''desktop.look''"
  unfolding second_frame_state_def
  by (simp_all add: first_frame_state_eval tick_def performStep_def isTipFinished_def
      VALIDATORS_def platformTips_def tipPlatform_def desktop_device_def quiet_frame_def
      has_def Let_def validator_defs prod_eq_iff)

lemma desktop_bottom:
  "scope_lookup (platformTips desktop_device) ''bottom'' =
     Some [''look'', ''locomotion'', ''turning'', ''spawn_menu'', ''object_grab'',
       ''object_zoom'', ''object_scale'', ''freeze_gesture'', ''menu_hover'',
       ''object_recenter_button'', ''object_rotate_button'', ''object_scale_button'',
       ''object_pin'', ''invite'', ''pen_color'', ''pen_size'']"
  by (simp add: scope_lookup_def platformTips_def tipPlatform_def desktop_device_def)

lemma looked_frame_verdicts:
  "verdict_of desktop_device looked_frame ''look'' = FINISH"
  "verdict_of desktop_device looked_frame ''locomotion'' = VALID"
  "verdict_of desktop_device quiet_frame ''look'' = VALID"
  by (simp_all add: verdict_of_def VALIDATORS_def look_def locomotion_def has_def
      looked_frame_def quiet_frame_def desktop_device_def)

lemma not_finished_empty: "\<not> finished_in Map.empty x"
  by (simp add: finished_in_def)

lemma qualified_desktop: "qualified_name desktop_device tip = ''desktop.'' @ tip"
  by (simp add: qualified_name_def tipPlatform_def desktop_device_def)

lemma looked_state_eval:
  "fst (tick desktop_device looked_frame first_frame_state) = Inr ()"
  "userinput_handle looked_state" "mediaCounter_handle looked_state"
  "item looked_state = JsonObject [''look'' \<mapsto> \<lparr> finished = True \<rparr>]"
  "localStorageCache looked_state = Some [''look'' \<mapsto> \<lparr> finished = True \<rparr>]"
  "finishedScopes looked_state = (\<lambda>scope. False)"
  "activeTips looked_state ''top'' = NoTip"
  "activeTips looked_state ''bottom'' = Tip ''desktop.locomotion''"
  unfolding looked_state_def
  by (simp_all add: first_frame_state_eval tick_def performStep_def isTipFinished_def
      markTipFinished_def set_finished_def VALIDATORS_def platformTips_def tipPlatform_def desktop_device_def
      looked_frame_def quiet_frame_def has_def Let_def validator_defs prod_eq_iff)

lemma closed_state_eval:
  "userinput_handle closed_state" "mediaCounter_handle closed_state"
  "item closed_state = JsonObject [''mirror_mode'' \<mapsto> \<lparr> finished = True \<rparr>,
     ''pen_mode'' \<mapsto> \<lparr> finished = True \<rparr>, ''video_share_mode'' \<mapsto> \<lparr> finished = True \<rparr>,
     ''mute_mode'' \<mapsto> \<lparr> finished = True \<rparr>]"
  "localStorageCache closed_state = None"
  "finishedScopes closed_state = (\<lambda>scope. False)"
  "activeTips closed_state ''top'' = NoTip"
  "activeTips closed_state ''bottom'' = Tip ''desktop.look''"
  unfolding closed_state_def
  by (simp_all add: first_frame_state_eval handleTipClose_def markTipFinished_def
      set_finished_def LOCAL_CLOSE_TIPS_def scope_lookup_def platformTips_def tipPlatform_def desktop_device_def)

lemma exhausted_state_eval:
  "finishedScopes exhausted_state ''top''"
  "\<not> finishedScopes exhausted_state ''bottom''"
  "activeTips exhausted_state ''top'' = NoTip"
  "userinput_handle exhausted_state" "mediaCounter_handle exhausted_state"
  unfolding exhausted_state_def
  by (simp_all add: closed_state_eval tick_def performStep_def isTipFinished_def
      VALIDATORS_def platformTips_def tipPlatform_def desktop_device_def quiet_frame_def
      has_def Let_def validator_defs prod_eq_iff)

lemma run_to_exhausted_state:
  "run desktop_device
     [Tick quiet_frame, HandleTipClose ''desktop.mute_mode'' ''top'', Tick quiet_frame]
     (system_start NoItem) = exhausted_state"
  by (simp add: exhausted_state_def closed_state_def first_frame_state_def)

lemma wf_first_frame_state: "wf_state first_frame_state"
  using tick_wf [OF wf_system_start, of desktop_device quiet_frame NoItem]
  by (simp add: first_frame_state_def)

lemma wf_looked_state: "wf_state looked_state"
  using tick_wf [OF wf_first_frame_state, of desktop_device looked_frame]
  by (simp add: looked_state_def)

lemma failed_reset_state_eval:
  "fst (resetTips quiet_frame exhausted_state) = Inl TypeError"
  "item failed_reset_state = JsonObject Map.empty"
  "localStorageCache failed_reset_state = None"
  "finishedScopes failed_reset_state ''top''"
  "\<not> finishedScopes failed_reset_state ''bottom''"
  "activeTips failed_reset_state ''top'' = NoTip"
  "userinput_handle failed_reset_state" "mediaCounter_handle failed_reset_state"
  unfolding failed_reset_state_def
  by (simp_all add: resetTips_def Let_def quiet_frame_def exhausted_state_eval)

lemma run_to_failed_reset_state:
  "run desktop_device
     [Tick quiet_frame, HandleTipClose ''desktop.mute_mode'' ''top'', Tick quiet_frame,
      ResetTips quiet_frame]
     (system_start NoItem) = failed_reset_state"
  by (simp add: failed_reset_state_def exhausted_state_def closed_state_def
      first_frame_state_def)

lemma wf_failed_reset_state: "wf_state failed_reset_state"
  using wf_run [OF wf_system_start, of desktop_device _ NoItem]
  unfolding run_to_failed_reset_state [symmetric] .

lemma desktop_top:
  "scope_lookup (platformTips desktop_device) ''top'' =
     Some [''mirror_mode'', ''pen_mode'', ''video_share_mode'', ''mute_mode'']"
  by (simp add: scope_lookup_def platformTips_def tipPlatform_def desktop_device_def)

lemma muted_frame_first_valid:
  "first_valid desktop_device muted_frame Map.empty
     [''mirror_mode'', ''pen_mode'', ''video_share_mode'', ''mute_mode'']
   = Tip ''desktop.mute_mode''"
  by (simp add: first_valid_def verdict_of_def VALIDATORS_def mirror_mode_def pen_mode_def
      video_share_mode_def mute_mode_def has_def muted_frame_def quiet_frame_def
      not_finished_empty qualified_desktop)

section \<open>The claims\<close>

subsection \<open>The scope evaluator\<close>

text \<open>
  Claim C1. \<^verbatim>\<open>_performStep\<close> on the list of a scope (\<^verbatim>\<open>top\<close> or \<^verbatim>\<open>bottom\<close> of
  the platform), in any state that the system reaches over a stored object \<open>m\<close>
  (\<open>wf_state\<close> holds at the start and after every call, also after one that throws,
  see \<open>wf_system_start\<close> and \<open>wf_run\<close>): it returns normally and the scope's entry of
  \<^verbatim>\<open>activeTips\<close>, a single value, is afterwards \<^verbatim>\<open>null\<close> when the scope's flag was
  set (the call is then a no-op), and otherwise \<open>first_valid dev env m tips\<close>: the
  qualified name of the first tip of the list, in order, that is not finished in \<open>m\<close>
  and whose validator returns \<open>VALID\<close> on the frame, and \<^verbatim>\<open>null\<close> when there is none.
  So at most one tip is selected, and a selected tip is that first one; tips returning
  \<open>INVALID\<close> or \<open>FINISH\<close> are never the selection.
\<close>

theorem first_valid_tip_selected:
  assumes "wf_state s" and "item s = JsonObject m"
    and "scope_lookup (platformTips dev) scope = Some tips"
  shows "fst (performStep dev env tips scope s) = Inr ()
     \<and> activeTips (snd (performStep dev env tips scope s)) scope =
         (if finishedScopes s scope then NoTip else first_valid dev env m tips)"
proof -
  have l: "loaded s m" using assms(1,2) by (simp add: wf_state_def cache_ok_loaded)
  have k: "known tips"
    using scope_lookup_Some [OF assms(3)] known_catalog [of dev] by auto
  have n: "finishedScopes s scope \<longrightarrow> activeTips s scope = NoTip"
    using assms(1) by (simp add: wf_state_def)
  show ?thesis
    using performStep_loaded [OF l k, of dev env scope] n by auto
qed

theorem first_valid_tip_selected_witness:
  "wf_state first_frame_state
   \<and> item first_frame_state = JsonObject Map.empty
   \<and> scope_lookup (platformTips desktop_device) ''bottom'' =
       Some [''look'', ''locomotion'', ''turning'', ''spawn_menu'', ''object_grab'',
         ''object_zoom'', ''object_scale'', ''freeze_gesture'', ''menu_hover'',
         ''object_recenter_button'', ''object_rotate_button'', ''object_scale_button'',
         ''object_pin'', ''invite'', ''pen_color'', ''pen_size'']
   \<and> \<not> finishedScopes first_frame_state ''bottom''
   \<and> fst (performStep desktop_device looked_frame
         [''look'', ''locomotion'', ''turning'', ''spawn_menu'', ''object_grab'',
          ''object_zoom'', ''object_scale'', ''freeze_gesture'', ''menu_hover'',
          ''object_recenter_button'', ''object_rotate_button'', ''object_scale_button'',
          ''object_pin'', ''invite'', ''pen_color'', ''pen_size'']
         ''bottom'' first_frame_state) = Inr ()
   \<and> activeTips (snd (performStep desktop_device looked_frame
         [''look'', ''locomotion'', ''turning'', ''spawn_menu'', ''object_grab'',
          ''object_zoom'', ''object_scale'', ''freeze_gesture'', ''menu_hover'',
          ''object_recenter_button'', ''object_rotate_button'', ''object_scale_button'',
          ''object_pin'', ''invite'', ''pen_color'', ''pen_size'']
         ''bottom'' first_frame_state)) ''bottom'' = Tip ''desktop.locomotion''
   \<and> wf_state failed_reset_state
   \<and> item failed_reset_state = JsonObject Map.empty
   \<and> scope_lookup (platformTips desktop_device) ''top'' =
       Some [''mirror_mode'', ''pen_mode'', ''video_share_mode'', ''mute_mode'']
   \<and> finishedScopes failed_reset_state ''top''
   \<and> fst (performStep desktop_device muted_frame
         [''mirror_mode'', ''pen_mode'', ''video_share_mode'', ''mute_mode'']
         ''top'' failed_reset_state) = Inr ()
   \<and> activeTips (snd (performStep desktop_device muted_frame
         [''mirror_mode'', ''pen_mode'', ''video_share_mode'', ''mute_mode'']
         ''top'' failed_reset_state)) ''top'' = NoTip"
proof -
  have nf: "\<not> finishedScopes first_frame_state ''bottom''"
    by (simp add: first_frame_state_eval)
  have v: "first_valid desktop_device looked_frame Map.empty
       [''look'', ''locomotion'', ''turning'', ''spawn_menu'', ''object_grab'',
         ''object_zoom'', ''object_scale'', ''freeze_gesture'', ''menu_hover'',
         ''object_recenter_button'', ''object_rotate_button'', ''object_scale_button'',
         ''object_pin'', ''invite'', ''pen_color'', ''pen_size'']
       = Tip ''desktop.locomotion''"
    by (simp add: first_valid_def looked_frame_verdicts not_finished_empty qualified_desktop)
  show ?thesis
    using wf_first_frame_state first_frame_state_eval(8) desktop_bottom nf v
      wf_failed_reset_state failed_reset_state_eval(2,4) desktop_top
      first_valid_tip_selected [OF wf_first_frame_state first_frame_state_eval(8)
        desktop_bottom, of looked_frame]
      first_valid_tip_selected [OF wf_failed_reset_state failed_reset_state_eval(2)
        desktop_top, of muted_frame]
    by simp
qed

text \<open>
  Claim C2. Let a tip \<open>t\<close> be finished in the stored record of any state that the
  system reaches (\<open>wf_state\<close>), as it is once the validator of \<open>t\<close> has returned
  \<open>FINISH\<close> in a tick (claim C3 shows the marking). Then after any sequence of calls
  without a reset (ticks on any frames, closing tips, marking tips) \<open>t\<close> is still
  finished in the record, and after a further tick on any frame, which returns normally,
  the selection of neither scope is \<open>t\<close>. Nothing is assumed about the handles: the
  tick may be the first one of a session that evaluates.
\<close>

theorem finished_tip_never_selected:
  assumes "wf_state s" and "item s = JsonObject m" and "finished_in m t"
    and "list_all (\<lambda>c. \<not> is_reset c) cs"
    and "scope \<in> {''top'', ''bottom''}"
  shows "(\<exists>m'. item (run dev cs s) = JsonObject m' \<and> finished_in m' t)
     \<and> fst (tick dev env (run dev cs s)) = Inr ()
     \<and> activeTips (snd (tick dev env (run dev cs s))) scope \<noteq> Tip (qualified_name dev t)"
proof -
  obtain m1 where i1: "item (run dev cs s) = JsonObject m1" and g: "grows m m1"
    using run_grows [OF assms(4,1,2)] by blast
  have f1: "finished_in m1 t" using g assms(3) by (simp add: grows_def)
  have w1: "wf_state (run dev cs s)" using assms(1) by (rule wf_run)
  show ?thesis
    using tick_skips_finished [OF w1 i1 f1 assms(5), of dev env] i1 f1 by auto
qed

theorem finished_tip_never_selected_witness:
  "wf_state looked_state
   \<and> item looked_state = JsonObject [''look'' \<mapsto> \<lparr> finished = True \<rparr>]
   \<and> finished_in [''look'' \<mapsto> \<lparr> finished = True \<rparr>] ''look''
   \<and> verdict_of desktop_device quiet_frame ''look'' = VALID
   \<and> list_all (\<lambda>c. \<not> is_reset c)
        [Tick quiet_frame, HandleTipClose ''desktop.invite'' ''bottom'']
   \<and> (\<exists>m'. item (run desktop_device
                 [Tick quiet_frame, HandleTipClose ''desktop.invite'' ''bottom''] looked_state)
              = JsonObject m' \<and> finished_in m' ''look'')
   \<and> activeTips (snd (tick desktop_device quiet_frame
         (run desktop_device [Tick quiet_frame, HandleTipClose ''desktop.invite'' ''bottom'']
            looked_state))) ''bottom'' \<noteq> Tip ''desktop.look''
   \<and> wf_state (system_start (JsonObject [''look'' \<mapsto> \<lparr> finished = True \<rparr>]))
   \<and> item (system_start (JsonObject [''look'' \<mapsto> \<lparr> finished = True \<rparr>]))
       = JsonObject [''look'' \<mapsto> \<lparr> finished = True \<rparr>]
   \<and> \<not> userinput_handle (system_start (JsonObject [''look'' \<mapsto> \<lparr> finished = True \<rparr>]))
   \<and> list_all (\<lambda>c. \<not> is_reset c) []
   \<and> fst (tick desktop_device quiet_frame
         (system_start (JsonObject [''look'' \<mapsto> \<lparr> finished = True \<rparr>]))) = Inr ()
   \<and> activeTips (snd (tick desktop_device quiet_frame
         (system_start (JsonObject [''look'' \<mapsto> \<lparr> finished = True \<rparr>])))) ''bottom''
       \<noteq> Tip ''desktop.look''"
proof -
  let ?m = "[''look'' \<mapsto> \<lparr> finished = True \<rparr>]"
  have f: "finished_in ?m ''look''"
    by (simp add: finished_in_def)
  have n: "list_all (\<lambda>c. \<not> is_reset c)
      [Tick quiet_frame, HandleTipClose ''desktop.invite'' ''bottom'']"
    by simp
  have e: "list_all (\<lambda>c. \<not> is_reset c) []" by simp
  have b: "''bottom'' \<in> {''top'', ''bottom''}" by simp
  have i: "item (system_start (JsonObject ?m)) = JsonObject ?m"
    "\<not> userinput_handle (system_start (JsonObject ?m))"
    by (simp_all add: system_start_def init_def module_load_def)
  have r: "run desktop_device [] (system_start (JsonObject ?m)) = system_start (JsonObject ?m)"
    by simp
  show ?thesis
    using wf_looked_state looked_state_eval(4) f n looked_frame_verdicts(3) e i
      wf_system_start [of "JsonObject ?m"]
      finished_tip_never_selected [OF wf_looked_state looked_state_eval(4) f n b,
        of desktop_device quiet_frame]
      finished_tip_never_selected [OF wf_system_start i(1) f e b,
        of desktop_device quiet_frame, unfolded r]
    by (simp add: qualified_desktop del: run.simps)
qed


text \<open>
  Claim C3. In one scan of a list \<open>xs @ a # ys\<close> over a loaded record \<open>m\<close>, when the scan
  reaches \<open>a\<close> (no tip of \<open>xs\<close> is unfinished and \<open>VALID\<close>), \<open>a\<close> is not finished and its
  validator returns \<open>FINISH\<close>: the call returns normally, \<open>a\<close> is finished in the
  stored record afterwards, and the selection is the first unfinished \<open>VALID\<close> tip of the
  rest \<open>ys\<close> (\<^verbatim>\<open>null\<close> if there is none): the scan went on past \<open>a\<close>, which is not
  the selection.
\<close>

theorem scan_continues_past_finish:
  assumes "loaded s m" and "known (xs @ a # ys)" and "\<not> finishedScopes s scope"
    and "\<forall>t \<in> set xs. finished_in m t \<or> verdict_of dev env t \<noteq> VALID"
    and "\<not> finished_in m a" and "verdict_of dev env a = FINISH"
  shows "fst (performStep dev env (xs @ a # ys) scope s) = Inr ()
     \<and> (\<exists>m'. item (snd (performStep dev env (xs @ a # ys) scope s)) = JsonObject m'
           \<and> finished_in m' a)
     \<and> activeTips (snd (performStep dev env (xs @ a # ys) scope s)) scope
         = first_valid dev env m ys"
proof -
  let ?tips = "xs @ a # ys"
  obtain s' where p: "performStep dev env ?tips scope s = (Inr (), s')"
    and l': "loaded s' (snd (snd (scan_abs dev env ?tips 0 m)))"
    and act: "activeTips s' = (activeTips s)(scope := first_valid dev env m ?tips)"
    using performStep_scan [OF assms(1,2,3), of dev env] by blast
  have "first_valid dev env m ?tips = first_valid dev env m (a # ys)"
    using assms(4) by (rule first_valid_skip)
  also have "\<dots> = first_valid dev env m ys"
    using assms(6) by (simp add: first_valid_def)
  finally have sel: "first_valid dev env m ?tips = first_valid dev env m ys" .
  have "finished_in (snd (snd (scan_abs dev env ?tips 0 m))) a"
    using assms(4,6) by (rule scan_abs_reaches_finish)
  then show ?thesis using p l' act sel by (simp add: loaded_def)
qed

theorem scan_continues_past_finish_witness:
  "loaded first_frame_state Map.empty
   \<and> bottom_tips (platformTips desktop_device) =
       [] @ ''look'' # [''locomotion'', ''turning'', ''spawn_menu'', ''object_grab'',
         ''object_zoom'', ''object_scale'', ''freeze_gesture'', ''menu_hover'',
         ''object_recenter_button'', ''object_rotate_button'', ''object_scale_button'',
         ''object_pin'', ''invite'', ''pen_color'', ''pen_size'']
   \<and> \<not> finishedScopes first_frame_state ''bottom''
   \<and> \<not> finished_in Map.empty ''look''
   \<and> verdict_of desktop_device looked_frame ''look'' = FINISH
   \<and> verdict_of desktop_device looked_frame ''locomotion'' = VALID
   \<and> activeTips first_frame_state ''bottom'' = Tip ''desktop.look''
   \<and> fst (performStep desktop_device looked_frame (bottom_tips (platformTips desktop_device))
         ''bottom'' first_frame_state) = Inr ()
   \<and> (\<exists>m'. item (snd (performStep desktop_device looked_frame
                (bottom_tips (platformTips desktop_device)) ''bottom'' first_frame_state))
              = JsonObject m' \<and> finished_in m' ''look'')
   \<and> activeTips (snd (performStep desktop_device looked_frame
         (bottom_tips (platformTips desktop_device)) ''bottom'' first_frame_state)) ''bottom''
       = Tip ''desktop.locomotion''"
proof -
  let ?ys = "[''locomotion'', ''turning'', ''spawn_menu'', ''object_grab'',
         ''object_zoom'', ''object_scale'', ''freeze_gesture'', ''menu_hover'',
         ''object_recenter_button'', ''object_rotate_button'', ''object_scale_button'',
         ''object_pin'', ''invite'', ''pen_color'', ''pen_size'']"
  have c: "bottom_tips (platformTips desktop_device) = [] @ ''look'' # ?ys"
    by (simp add: platformTips_def tipPlatform_def desktop_device_def)
  have l: "loaded first_frame_state Map.empty"
    by (simp add: loaded_def first_frame_state_eval)
  have k: "known ([] @ ''look'' # ?ys)"
    using known_catalog(2) [of desktop_device] unfolding c .
  have f: "\<not> finishedScopes first_frame_state ''bottom''"
    by (simp add: first_frame_state_eval)
  have x: "\<forall>t \<in> set []. finished_in Map.empty t \<or> verdict_of desktop_device looked_frame t \<noteq> VALID"
    by simp
  have v: "first_valid desktop_device looked_frame Map.empty ?ys = Tip ''desktop.locomotion''"
    by (simp add: first_valid_def looked_frame_verdicts not_finished_empty qualified_desktop)
  show ?thesis
    unfolding c
    using l f not_finished_empty [of "''look''"] looked_frame_verdicts(1,2)
      first_frame_state_eval(5) v
      scan_continues_past_finish [OF l k f x not_finished_empty looked_frame_verdicts(1)]
    by (simp del: append.simps)
qed

subsection \<open>Validators\<close>

text \<open>
  Claim C8. When \<^verbatim>\<open>window.APP.store\<close> is absent, each of the four validators that
  read the store's activity flags (\<^verbatim>\<open>object_rotate_button\<close>, \<^verbatim>\<open>object_scale_button\<close>,
  \<^verbatim>\<open>object_recenter_button\<close>, \<^verbatim>\<open>object_pin\<close>) is in the table, never returns
  \<open>FINISH\<close>, and returns \<open>VALID\<close> when the scene is frozen and the media count is
  positive. The guard \<^verbatim>\<open>store && ...\<close> short-circuits, so no property of the absent
  store is read.
\<close>

theorem activity_validators_without_store:
  assumes "store env = None"
    and "tip \<in> {''object_rotate_button'', ''object_scale_button'',
                 ''object_recenter_button'', ''object_pin''}"
  shows "VALIDATORS tip \<noteq> None \<and> verdict_of dev env tip \<noteq> FINISH
     \<and> (scene_is env ''frozen'' \<and> 0 < count env \<longrightarrow> verdict_of dev env tip = VALID)"
  using assms
  by (auto simp: verdict_of_def VALIDATORS_activity object_rotate_button_def
      object_scale_button_def object_recenter_button_def object_pin_def
      split: if_splits)

theorem activity_validators_without_store_witness:
  "store frozen_frame = None \<and> scene_is frozen_frame ''frozen'' \<and> 0 < count frozen_frame
   \<and> verdict_of desktop_device frozen_frame ''object_rotate_button'' = VALID
   \<and> verdict_of desktop_device frozen_frame ''object_scale_button'' = VALID
   \<and> verdict_of desktop_device frozen_frame ''object_recenter_button'' = VALID
   \<and> verdict_of desktop_device frozen_frame ''object_pin'' = VALID
   \<and> store quiet_frame = None
   \<and> verdict_of desktop_device quiet_frame ''object_pin'' \<noteq> FINISH"
proof -
  have a: "store frozen_frame = None" "scene_is frozen_frame ''frozen''" "0 < count frozen_frame"
    and b: "store quiet_frame = None"
    by (simp_all add: frozen_frame_def quiet_frame_def)
  show ?thesis
    using a b
      activity_validators_without_store [OF a(1), of "''object_rotate_button''" desktop_device]
      activity_validators_without_store [OF a(1), of "''object_scale_button''" desktop_device]
      activity_validators_without_store [OF a(1), of "''object_recenter_button''" desktop_device]
      activity_validators_without_store [OF a(1), of "''object_pin''" desktop_device]
      activity_validators_without_store [OF b, of "''object_pin''" desktop_device]
    by simp
qed

text \<open>
  Claim C9. Each mode-indicator validator returns \<open>VALID\<close> exactly when its flag holds
  and \<open>INVALID\<close> otherwise: \<^verbatim>\<open>pen_mode\<close> reflects membership of \<^verbatim>\<open>cursorHoldingPen\<close>
  in the active sets, \<^verbatim>\<open>freeze_mode\<close>, \<^verbatim>\<open>video_share_mode\<close>, \<^verbatim>\<open>mirror_mode\<close> and
  \<^verbatim>\<open>mute_mode\<close> the scene states \<^verbatim>\<open>frozen\<close>, \<^verbatim>\<open>sharing_video\<close>, \<^verbatim>\<open>mirroring\<close> and
  \<^verbatim>\<open>muted\<close>. None of them ever returns \<open>FINISH\<close>.
\<close>

theorem mode_validators_reflect_flags:
  "verdict_of dev env ''pen_mode'' =
     (if cursorHoldingPen \<in> activeSets (input env) then VALID else INVALID)
   \<and> verdict_of dev env ''freeze_mode'' = (if scene_is env ''frozen'' then VALID else INVALID)
   \<and> verdict_of dev env ''video_share_mode'' =
       (if scene_is env ''sharing_video'' then VALID else INVALID)
   \<and> verdict_of dev env ''mirror_mode'' =
       (if scene_is env ''mirroring'' then VALID else INVALID)
   \<and> verdict_of dev env ''mute_mode'' = (if scene_is env ''muted'' then VALID else INVALID)
   \<and> VALIDATORS ''pen_mode'' = Some pen_mode
   \<and> VALIDATORS ''freeze_mode'' = Some freeze_mode
   \<and> VALIDATORS ''video_share_mode'' = Some video_share_mode
   \<and> VALIDATORS ''mirror_mode'' = Some mirror_mode
   \<and> VALIDATORS ''mute_mode'' = Some mute_mode"
  by (simp add: verdict_of_def VALIDATORS_mode pen_mode_def freeze_mode_def
      video_share_mode_def mirror_mode_def mute_mode_def has_def)

theorem mode_validators_reflect_flags_witness:
  "verdict_of desktop_device frozen_frame ''freeze_mode'' = VALID
   \<and> verdict_of desktop_device quiet_frame ''freeze_mode'' = INVALID
   \<and> verdict_of desktop_device quiet_frame ''pen_mode'' = INVALID"
  using mode_validators_reflect_flags [of desktop_device frozen_frame]
    mode_validators_reflect_flags [of desktop_device quiet_frame]
  by (simp add: frozen_frame_def quiet_frame_def)

subsection \<open>The persistence functions\<close>

text \<open>
  Claim C4, as stated: querying or marking a tip never fails, and an absent or corrupt
  record is treated as empty and re-initialised. On the code this is false:
  \<^verbatim>\<open>isTipFinished\<close> and \<^verbatim>\<open>markTipFinished\<close> parse the item and read a property of
  the result without a guard. With no item stored both throw a \<^verbatim>\<open>TypeError\<close> and leave
  the item absent; with a text that is not JSON the parse throws a \<^verbatim>\<open>SyntaxError\<close>.
\<close>

theorem query_fails_on_absent_record:
  "fst (isTipFinished ''look'' (module_load NoItem)) = Inl TypeError
   \<and> item (snd (isTipFinished ''look'' (module_load NoItem))) = NoItem
   \<and> fst (markTipFinished ''look'' (module_load NoItem)) = Inl TypeError
   \<and> item (snd (markTipFinished ''look'' (module_load NoItem))) = NoItem
   \<and> fst (isTipFinished ''look'' (module_load NotJson)) = Inl SyntaxError"
  by (simp add: isTipFinished_def markTipFinished_def module_load_def)

text \<open>
  Claim C4, amended. The absent record is replaced by the empty one when the system is
  initialised (\<^verbatim>\<open>init\<close>), not by the query: after \<open>system_start NoItem\<close> every query
  answers \<^verbatim>\<open>false\<close> and marking succeeds; a query after the mark answers \<^verbatim>\<open>true\<close>,
  except for the name \<^verbatim>\<open>__proto__\<close>, for which the mark stores nothing. Whenever the
  stored item is a JSON object (and the cache, if loaded, is that object) the query
  answers, without error, whether the tip has a finished entry, and marking succeeds.
  When the item is absent or the JSON \<^verbatim>\<open>null\<close>, marking throws a \<^verbatim>\<open>TypeError\<close> and so
  does the query (in a state that satisfies \<open>cache_ok\<close>, as every state of the system
  does: the cache is then not loaded); when the item is not JSON both throw a
  \<^verbatim>\<open>SyntaxError\<close>. In all these failures the state, and with it the item, stays as
  it was: nothing is re-initialised.
\<close>

theorem query_on_initialised_record:
  "fst (isTipFinished tip (system_start NoItem)) = Inr False
   \<and> fst (markTipFinished tip (system_start NoItem)) = Inr ()
   \<and> fst (isTipFinished tip (snd (markTipFinished tip (system_start NoItem))))
       = Inr (tip \<noteq> ''__proto__'')
   \<and> (loaded s m \<longrightarrow>
        fst (isTipFinished tip s) = Inr (finished_in m tip)
        \<and> fst (markTipFinished tip s) = Inr ())
   \<and> (item s = NoItem \<or> item s = JsonNull \<longrightarrow>
        markTipFinished tip s = (Inl TypeError, s)
        \<and> (cache_ok s \<longrightarrow> isTipFinished tip s = (Inl TypeError, s)))
   \<and> (item s = NotJson \<longrightarrow>
        markTipFinished tip s = (Inl SyntaxError, s)
        \<and> (cache_ok s \<longrightarrow> isTipFinished tip s = (Inl SyntaxError, s)))"
proof -
  have a: "fst (isTipFinished tip (system_start NoItem)) = Inr False"
    "fst (markTipFinished tip (system_start NoItem)) = Inr ()"
    "fst (isTipFinished tip (snd (markTipFinished tip (system_start NoItem))))
       = Inr (tip \<noteq> ''__proto__'')"
    by (simp_all add: isTipFinished_def markTipFinished_def set_finished_def system_start_def
        init_def module_load_def)
  have b: "loaded s m \<longrightarrow>
        fst (isTipFinished tip s) = Inr (finished_in m tip)
        \<and> fst (markTipFinished tip s) = Inr ()"
    by (auto simp: isTipFinished_def markTipFinished_def loaded_def finished_in_def)
  have c: "item s = NoItem \<or> item s = JsonNull \<longrightarrow>
        markTipFinished tip s = (Inl TypeError, s)
        \<and> (cache_ok s \<longrightarrow> isTipFinished tip s = (Inl TypeError, s))"
    by (auto simp: isTipFinished_def markTipFinished_def cache_ok_def split: option.splits)
  have d: "item s = NotJson \<longrightarrow>
        markTipFinished tip s = (Inl SyntaxError, s)
        \<and> (cache_ok s \<longrightarrow> isTipFinished tip s = (Inl SyntaxError, s))"
    by (auto simp: isTipFinished_def markTipFinished_def cache_ok_def split: option.splits)
  show ?thesis using a b c d by blast
qed

theorem query_on_initialised_record_witness:
  "loaded (system_start NoItem) Map.empty
   \<and> fst (isTipFinished ''invite'' (system_start NoItem)) = Inr False
   \<and> fst (markTipFinished ''invite'' (system_start NoItem)) = Inr ()
   \<and> fst (isTipFinished ''invite'' (snd (markTipFinished ''invite'' (system_start NoItem))))
       = Inr True
   \<and> item (system_start JsonNull) = JsonNull
   \<and> cache_ok (system_start JsonNull)
   \<and> markTipFinished ''invite'' (system_start JsonNull) = (Inl TypeError, system_start JsonNull)
   \<and> isTipFinished ''invite'' (system_start JsonNull) = (Inl TypeError, system_start JsonNull)
   \<and> item (system_start NotJson) = NotJson
   \<and> cache_ok (system_start NotJson)
   \<and> markTipFinished ''invite'' (system_start NotJson)
       = (Inl SyntaxError, system_start NotJson)
   \<and> isTipFinished ''invite'' (system_start NotJson) = (Inl SyntaxError, system_start NotJson)"
proof -
  have l: "loaded (system_start NoItem) Map.empty"
    by (simp add: loaded_def system_start_def init_def module_load_def)
  have n: "item (system_start JsonNull) = JsonNull" "cache_ok (system_start JsonNull)"
    "item (system_start NotJson) = NotJson" "cache_ok (system_start NotJson)"
    by (simp_all add: cache_ok_def system_start_def init_def module_load_def)
  show ?thesis
    using l n query_on_initialised_record [of "''invite''" "system_start JsonNull" Map.empty]
      query_on_initialised_record [of "''invite''" "system_start NotJson" Map.empty]
    by simp
qed

subsection \<open>Closing a tip\<close>

text \<open>
  Claim C5. \<^verbatim>\<open>handleTipClose(fullTip, scope)\<close> on a stored record \<open>m\<close>, for a scope
  \<^verbatim>\<open>top\<close> or \<^verbatim>\<open>bottom\<close> with list \<open>tips\<close>: the bare identifier is the second component
  of \<open>fullTip\<close> split at the dots. When it is \<^verbatim>\<open>invite\<close> or \<^verbatim>\<open>object_pin\<close> only this
  tip is marked; otherwise (also when there is no second component) every tip of the
  scope's list is marked. The call returns normally, a name is finished afterwards exactly
  when it was marked or was finished before, and the entries of all other names are
  untouched.
\<close>

theorem handleTipClose_marks:
  assumes "item s = JsonObject m"
    and "scope_lookup (platformTips dev) scope = Some tips"
    and "marked = (case index1 (split_dot fullTip) of
                     Some tip \<Rightarrow> if tip \<in> {''invite'', ''object_pin''} then [tip] else tips
                   | None \<Rightarrow> tips)"
  shows "fst (handleTipClose dev fullTip scope s) = Inr ()
     \<and> (\<exists>m'. item (snd (handleTipClose dev fullTip scope s)) = JsonObject m'
           \<and> (\<forall>x. finished_in m' x = (x \<in> set marked \<or> finished_in m x))
           \<and> (\<forall>x. x \<notin> set marked \<longrightarrow> m' x = m x))"
proof -
  have h: "handleTipClose dev fullTip scope s = markAll marked s"
    using assms(2,3) by (auto simp: handleTipClose_def LOCAL_CLOSE_TIPS_def split: option.splits)
  have "''__proto__'' \<notin> set tips"
    using scope_lookup_Some [OF assms(2)] known_catalog [of dev] VALIDATORS_proto
    by (auto simp: known_def)
  then have np: "''__proto__'' \<notin> set marked"
    using assms(3) by (auto split: option.splits if_splits)
  have "\<forall>x. finished_in (mark_rec marked m) x = (x \<in> set marked \<or> finished_in m x)"
    using np by (simp add: finished_in_def mark_rec_apply)
  moreover have "\<forall>x. x \<notin> set marked \<longrightarrow> mark_rec marked m x = m x"
    using np by (simp add: mark_rec_apply)
  ultimately show ?thesis using markAll_object [OF assms(1), of marked] h by simp
qed

theorem handleTipClose_marks_witness:
  "item (system_start NoItem) = JsonObject Map.empty
   \<and> scope_lookup (platformTips desktop_device) ''top'' =
       Some [''mirror_mode'', ''pen_mode'', ''video_share_mode'', ''mute_mode'']
   \<and> index1 (split_dot ''desktop.invite'') = Some ''invite''
   \<and> index1 (split_dot ''desktop.pen_mode'') = Some ''pen_mode''
   \<and> fst (handleTipClose desktop_device ''desktop.invite'' ''top'' (system_start NoItem)) = Inr ()
   \<and> (\<exists>m'. item (snd (handleTipClose desktop_device ''desktop.invite'' ''top''
                        (system_start NoItem))) = JsonObject m'
          \<and> finished_in m' ''invite'' \<and> \<not> finished_in m' ''pen_mode''
          \<and> \<not> finished_in m' ''object_pin'')
   \<and> (\<exists>m'. item (snd (handleTipClose desktop_device ''desktop.pen_mode'' ''top''
                        (system_start NoItem))) = JsonObject m'
          \<and> finished_in m' ''mirror_mode'' \<and> finished_in m' ''pen_mode''
          \<and> finished_in m' ''video_share_mode'' \<and> finished_in m' ''mute_mode''
          \<and> \<not> finished_in m' ''look'')"
proof -
  have a: "item (system_start NoItem) = JsonObject Map.empty"
    by (simp add: tips_eval)
  have b: "scope_lookup (platformTips desktop_device) ''top'' =
       Some [''mirror_mode'', ''pen_mode'', ''video_share_mode'', ''mute_mode'']"
    by (simp add: tips_eval)
  have c: "index1 (split_dot ''desktop.invite'') = Some ''invite''"
    "index1 (split_dot ''desktop.pen_mode'') = Some ''pen_mode''"
    by simp_all
  have e: "\<not> finished_in Map.empty x" for x by (simp add: finished_in_def)
  obtain m1 where m1: "fst (handleTipClose desktop_device ''desktop.invite'' ''top''
        (system_start NoItem)) = Inr ()"
      "item (snd (handleTipClose desktop_device ''desktop.invite'' ''top''
        (system_start NoItem))) = JsonObject m1"
      "\<forall>x. finished_in m1 x = (x = ''invite'')"
    using handleTipClose_marks [OF a b refl, of "''desktop.invite''"] c
    by (simp add: e) blast
  obtain m2 where m2: "item (snd (handleTipClose desktop_device ''desktop.pen_mode'' ''top''
        (system_start NoItem))) = JsonObject m2"
      "\<forall>x. finished_in m2 x = (x \<in> {''mirror_mode'', ''pen_mode'', ''video_share_mode'',
         ''mute_mode''})"
    using handleTipClose_marks [OF a b refl, of "''desktop.pen_mode''"] c
    by (simp add: e) blast
  have "finished_in m1 ''invite'' \<and> \<not> finished_in m1 ''pen_mode''
      \<and> \<not> finished_in m1 ''object_pin''"
    using m1(3) by simp
  moreover have "finished_in m2 ''mirror_mode'' \<and> finished_in m2 ''pen_mode''
      \<and> finished_in m2 ''video_share_mode'' \<and> finished_in m2 ''mute_mode''
      \<and> \<not> finished_in m2 ''look''"
    using m2(2) by simp
  ultimately show ?thesis
    using a b c m1(1,2) m2(1) by simp
qed

subsection \<open>The change event\<close>

text \<open>
  Claim C6. A tick that completes its evaluation (it returns normally with both handles
  resolved) appends exactly one event, carrying the new \<^verbatim>\<open>activeTips\<close>, when the
  selection of \<^verbatim>\<open>top\<close> or of \<^verbatim>\<open>bottom\<close> differs from the one before the tick, and
  appends nothing when both are the same.
\<close>

theorem tick_emits_once_on_change:
  assumes "tick dev env s = (Inr (), s')"
    and "userinput_handle s'" and "mediaCounter_handle s'"
  shows "emitted s' =
     (if activeTips s' ''top'' \<noteq> activeTips s ''top''
         \<or> activeTips s' ''bottom'' \<noteq> activeTips s ''bottom''
      then emitted s @ [activeTips s'] else emitted s)"
proof (cases "ready (resolve env s)")
  case True
  then have "evaluate dev env (resolve env s) = (Inr (), s')"
    using assms(1) by (simp add: tick_cases)
  from evaluate_emitted [OF this] show ?thesis by (simp add: resolve_fields)
next
  case False
  then have "s' = resolve env s" using assms(1) by (simp add: tick_cases)
  then show ?thesis using False assms(2,3) by (simp add: ready_def)
qed

theorem tick_emits_once_on_change_witness:
  "tick desktop_device quiet_frame (system_start NoItem) = (Inr (), first_frame_state)
   \<and> userinput_handle first_frame_state \<and> mediaCounter_handle first_frame_state
   \<and> activeTips (system_start NoItem) ''top'' = Unset
   \<and> activeTips first_frame_state ''top'' = NoTip
   \<and> emitted first_frame_state = [activeTips first_frame_state]
   \<and> tick desktop_device quiet_frame first_frame_state = (Inr (), second_frame_state)
   \<and> userinput_handle second_frame_state \<and> mediaCounter_handle second_frame_state
   \<and> activeTips second_frame_state ''top'' = activeTips first_frame_state ''top''
   \<and> activeTips second_frame_state ''bottom'' = activeTips first_frame_state ''bottom''
   \<and> emitted second_frame_state = emitted first_frame_state"
  using tick_emits_once_on_change [OF first_frame_state_eval(1,2,3)]
    tick_emits_once_on_change [OF second_frame_state_eval(1,2,3)]
  by (simp add: first_frame_state_eval second_frame_state_eval)

subsection \<open>The exhaustion flag\<close>

text \<open>
  Claim C7 says that the flag never changes the chosen tip. The code breaks it after a
  reset that does not find \<^verbatim>\<open>window.APP.store\<close>: \<^verbatim>\<open>resetTips\<close> clears the record,
  throws at the call on the store, and never reaches the statement that clears
  \<^verbatim>\<open>finishedScopes\<close>. On a desktop: after a quiet frame, closing the top tip and a
  second quiet frame the top flag is set; the reset on a frame without store throws a
  \<^verbatim>\<open>TypeError\<close> and leaves the empty record with the flag still set; in a following
  muted frame the first valid top tip is \<^verbatim>\<open>mute_mode\<close>, which the full walk selects,
  while the system skips the scope and selects nothing. Over runs whose resets find the
  store the two evaluations agree (\<open>flag_refinement_when_resets_complete\<close>).
\<close>

theorem failed_reset_leaves_flag_set:
  "store quiet_frame = None
   \<and> run desktop_device
        [Tick quiet_frame, HandleTipClose ''desktop.mute_mode'' ''top'', Tick quiet_frame]
        (system_start NoItem) = exhausted_state
   \<and> finishedScopes exhausted_state ''top''
   \<and> fst (resetTips quiet_frame exhausted_state) = Inl TypeError
   \<and> item (snd (resetTips quiet_frame exhausted_state)) = JsonObject Map.empty
   \<and> finishedScopes (snd (resetTips quiet_frame exhausted_state)) ''top''
   \<and> first_valid desktop_device muted_frame Map.empty
        (top_tips (platformTips desktop_device)) = Tip ''desktop.mute_mode''
   \<and> activeTips (run desktop_device failed_reset_run (system_start NoItem)) ''top'' = NoTip
   \<and> activeTips (run_rewalk desktop_device failed_reset_run (system_start NoItem)) ''top''
       = Tip ''desktop.mute_mode''"
proof -
  have a: "store quiet_frame = None" by (simp add: quiet_frame_def)
  have t: "top_tips (platformTips desktop_device)
      = [''mirror_mode'', ''pen_mode'', ''video_share_mode'', ''mute_mode'']"
    by (simp add: platformTips_def tipPlatform_def desktop_device_def)
  have r: "run desktop_device failed_reset_run (system_start NoItem)
      = snd (tick desktop_device muted_frame failed_reset_state)"
    by (simp add: failed_reset_run_def failed_reset_state_def exhausted_state_def
        closed_state_def first_frame_state_def)
  have x: "activeTips (snd (tick desktop_device muted_frame failed_reset_state)) ''top'' = NoTip"
    by (simp add: failed_reset_state_eval tick_def performStep_def isTipFinished_def
        VALIDATORS_def platformTips_def tipPlatform_def desktop_device_def muted_frame_def
        quiet_frame_def has_def Let_def validator_defs prod_eq_iff)
  have y: "activeTips (run_rewalk desktop_device failed_reset_run (system_start NoItem)) ''top''
       = Tip ''desktop.mute_mode''"
    by (simp add: failed_reset_run_def tick_rewalk_def performStep_rewalk_def resetTips_def
        handleTipClose_def markTipFinished_def set_finished_def isTipFinished_def
        LOCAL_CLOSE_TIPS_def scope_lookup_def system_start_def init_def module_load_def
        VALIDATORS_def platformTips_def tipPlatform_def desktop_device_def muted_frame_def
        quiet_frame_def has_def Let_def validator_defs prod_eq_iff)
  show ?thesis
    using a run_to_exhausted_state exhausted_state_eval(1) failed_reset_state_eval(1,2,4)
      muted_frame_first_valid x y
    unfolding r t failed_reset_state_def by simp
qed


subsection \<open>Empty catalogs\<close>

text \<open>
  Claim C10. On the standalone platform both lists are empty. For a scope whose flag
  is not yet set (as at the start), a tick that has both handles returns normally, sets the
  scope's flag although the record is untouched (no tip was marked), and leaves the
  scope's selection \<^verbatim>\<open>null\<close>; after any further calls other than a reset the flag is
  still set and the selection still \<^verbatim>\<open>null\<close>.
\<close>

theorem standalone_scope_exhausted_at_first_tick:
  assumes "isMobileVR dev" and "scope \<in> {''top'', ''bottom''}"
    and "\<not> finishedScopes s scope"
    and "userinput_handle s \<or> userinput_registered env"
    and "mediaCounter_handle s \<or> mediaCounter_registered env"
  shows "scope_lookup (platformTips dev) scope = Some []
     \<and> fst (tick dev env s) = Inr ()
     \<and> item (snd (tick dev env s)) = item s
     \<and> finishedScopes (snd (tick dev env s)) scope
     \<and> activeTips (snd (tick dev env s)) scope = NoTip
     \<and> (\<forall>cs. list_all (\<lambda>c. \<not> is_reset c) cs \<longrightarrow>
           finishedScopes (run dev cs (snd (tick dev env s))) scope
           \<and> activeTips (run dev cs (snd (tick dev env s))) scope = NoTip)"
proof -
  have r: "ready (resolve env s)" using assms(4,5) by (simp add: resolve_ready)
  then have t: "tick dev env s = evaluate dev env (resolve env s)" by (simp add: tick_cases)
  have e: "fst (tick dev env s) = Inr ()" "finishedScopes (snd (tick dev env s)) scope"
    "activeTips (snd (tick dev env s)) scope = NoTip"
    using evaluate_standalone [OF assms(1,2), of env "resolve env s"] assms(3) t
    by (simp_all add: resolve_fields)
  have i: "item (snd (tick dev env s)) = item s"
    using assms(1) t
    by (simp add: evaluate_def platformTips_standalone performStep_empty resolve_fields)
  have l: "scope_lookup (platformTips dev) scope = Some []"
    using assms(1,2) by (auto simp: scope_lookup_def platformTips_standalone)
  show ?thesis
    using e i l run_standalone_keeps [OF assms(1,2) _ e(2,3)] by simp
qed

theorem standalone_scope_exhausted_at_first_tick_witness:
  "isMobileVR standalone_device
   \<and> \<not> finishedScopes (system_start NoItem) ''bottom''
   \<and> userinput_registered quiet_frame \<and> mediaCounter_registered quiet_frame
   \<and> list_all (\<lambda>c. \<not> is_reset c) [Tick frozen_frame, HandleTipClose ''standalone.invite'' ''bottom'']
   \<and> item (snd (tick standalone_device quiet_frame (system_start NoItem))) = JsonObject Map.empty
   \<and> finishedScopes (snd (tick standalone_device quiet_frame (system_start NoItem))) ''bottom''
   \<and> activeTips (snd (tick standalone_device quiet_frame (system_start NoItem))) ''bottom'' = NoTip
   \<and> activeTips (run standalone_device
         [Tick frozen_frame, HandleTipClose ''standalone.invite'' ''bottom'']
         (snd (tick standalone_device quiet_frame (system_start NoItem)))) ''bottom'' = NoTip"
proof -
  have a: "isMobileVR standalone_device" "\<not> finishedScopes (system_start NoItem) ''bottom''"
    "userinput_registered quiet_frame" "mediaCounter_registered quiet_frame"
    "item (system_start NoItem) = JsonObject Map.empty"
    by (simp_all add: tips_eval)
  have b: "list_all (\<lambda>c. \<not> is_reset c)
      [Tick frozen_frame, HandleTipClose ''standalone.invite'' ''bottom'']"
    by simp
  note t = standalone_scope_exhausted_at_first_tick [of standalone_device "''bottom''"
      "system_start NoItem" quiet_frame]
  have "activeTips (run standalone_device
         [Tick frozen_frame, HandleTipClose ''standalone.invite'' ''bottom'']
         (snd (tick standalone_device quiet_frame (system_start NoItem)))) ''bottom'' = NoTip"
    using t a b by blast
  then show ?thesis
    using a b t by (simp del: run.simps)
qed

end
